theory Spec2Isabelle
  imports Main "HOL-Library.Sublist"
begin

section \<open>The type model of the fixture generator\<close>

text \<open>
  The generator package keeps every declaration it knows about in a \<open>Model\<close>: four Go
  maps keyed by type name. A type reference is a small tree: a kind tag (a Go string),
  a name, and an optional element reference (\<open>Elem *TypeRef\<close>, nil for leaves).
  Go strings are byte sequences, which is what \<open>string\<close> (a list of 8-bit
  characters) is here. The maps of the model hold pointers to records that both
  front-ends allocate before they store them; a map is a partial function from names to
  records here, and a reference is a finite tree, as every reference that the
  front-ends build is.
\<close>

abbreviation DQ :: string where "DQ \<equiv> [CHR 0x22]"
abbreviation NL :: string where "NL \<equiv> [CHR 0x0A]"
abbreviation TAB :: string where "TAB \<equiv> [CHR 0x09]"

datatype TypeRef = TypeRef (Kind: string) (Name: string) (Elem: "TypeRef option")

record Field =
  Field_Name :: string
  Field_Type :: TypeRef

record Struct =
  Struct_Name :: string
  Struct_Fields :: "Field list"

record Enum =
  Enum_Name :: string
  Enum_Values :: "string list"

record TypeDef =
  TypeDef_Name :: string
  TypeDef_Underlying :: TypeRef

record Model =
  Structs :: "string \<rightharpoonup> Struct"
  Enums :: "string \<rightharpoonup> Enum"
  TypeDefs :: "string \<rightharpoonup> TypeDef"
  OneOfs :: "string \<rightharpoonup> string"

definition NewModel :: Model where
  "NewModel = \<lparr>Structs = Map.empty, Enums = Map.empty, TypeDefs = Map.empty, OneOfs = Map.empty\<rparr>"

record ExternalType =
  ext_Import :: string
  ext_Value :: string

definition ProtoInternalFields :: "string \<Rightarrow> bool" where
  "ProtoInternalFields k =
     (k = ''state'' \<or> k = ''unknownFields'' \<or> k = ''sizeCache'' \<or> k = ''EnforceVersion'')"

definition ExternalTypes :: "string \<rightharpoonup> ExternalType" where
  "ExternalTypes k =
     (if k = ''Timestamp'' then
        Some \<lparr>ext_Import = ''timestamppb '' @ DQ @ ''google.golang.org/protobuf/types/known/timestamppb'' @ DQ,
              ext_Value = ''timestamppb.New(time.Date(2000, 1, 1, 0, 0, 0, 0, time.UTC))''\<rparr>
      else if k = ''Time'' then
        Some \<lparr>ext_Import = DQ @ ''time'' @ DQ,
              ext_Value = ''time.Date(2000, 1, 1, 0, 0, 0, 0, time.UTC)''\<rparr>
      else None)"

definition RequiredImports :: "string list" where
  "RequiredImports = [DQ @ ''time'' @ DQ]"

record GenerateOptions =
  TypePrefix :: string
  FuncPrefix :: string
  ModStyle :: bool

section \<open>Value synthesis\<close>

text \<open>
  \<open>prefixType\<close> is the closure that \<open>GenerateWithOptions\<close>, \<open>genValue\<close> and
  \<open>typeName\<close> each declare with the same body.
\<close>

definition prefixType :: "GenerateOptions \<Rightarrow> string \<Rightarrow> string" where
  "prefixType opts name =
     (if TypePrefix opts \<noteq> [] then TypePrefix opts @ ''.'' @ name else name)"

definition numericTypes :: "string list" where
  "numericTypes =
     [''int'', ''int8'', ''int16'', ''int32'', ''int64'',
      ''uint'', ''uint8'', ''uint16'', ''uint32'', ''uint64'',
      ''float32'', ''float64'', ''byte'', ''rune'']"

definition genPrimitiveValue :: "string \<Rightarrow> string \<Rightarrow> string \<Rightarrow> string" where
  "genPrimitiveValue tname fieldName structName =
     (if tname = ''string'' then
        (if fieldName = ''ID'' \<or> fieldName = ''Id'' then DQ @ structName @ ''ID'' @ DQ
         else DQ @ fieldName @ DQ)
      else if tname = ''bool'' then ''true''
      else if tname \<in> set numericTypes then ''1''
      else ''nil'')"

text \<open>
  \<open>typeName\<close>: the switch on the kind returns only inside its guarded branches; every
  other path leaves the switch and reaches the three trailing statements.
\<close>

fun typeName :: "TypeRef \<Rightarrow> GenerateOptions \<Rightarrow> string" where
  "typeName (TypeRef kind name elem) opts =
     (if kind = ''pointer'' \<and> elem \<noteq> None then
        (case elem of Some e \<Rightarrow> ''*'' @ typeName e opts | None \<Rightarrow> [])
      else if kind = ''slice'' \<and> elem \<noteq> None then
        (case elem of Some e \<Rightarrow> ''[]'' @ typeName e opts | None \<Rightarrow> [])
      else if (kind = ''struct'' \<or> kind = ''enum'' \<or> kind = ''typedef'') \<and> name \<noteq> [] then
        prefixType opts name
      else if name \<noteq> [] then name
      else (case elem of Some e \<Rightarrow> typeName e opts | None \<Rightarrow> ''interface{}''))"

text \<open>\<open>strings.Join\<close>\<close>

fun join :: "string list \<Rightarrow> string \<Rightarrow> string" where
  "join [] sep = []"
| "join [x] sep = x"
| "join (x # y # ys) sep = x @ sep @ join (y # ys) sep"

text \<open>
  The loop over the fields of a oneof member: each field value is synthesized by the
  recursive call \<open>g\<close> and \<open>"name: value"\<close> is appended to \<open>structFields\<close>. A recursive
  call that does not return leaves the whole loop without a result.
\<close>

fun fieldsLoop :: "(Field \<Rightarrow> string option) \<Rightarrow> Field list \<Rightarrow> string list \<Rightarrow> string list option" where
  "fieldsLoop g [] structFields = Some structFields"
| "fieldsLoop g (field # rest) structFields =
     (case g field of
        None \<Rightarrow> None
      | Some fieldValue \<Rightarrow>
          fieldsLoop g rest (structFields @ [Field_Name field @ '': '' @ fieldValue]))"

text \<open>
  The body shared, word for word, by the two oneof branches of \<open>genValue\<close> (kind
  \<open>"struct"\<close> with a name starting with \<open>is\<close>, and kind \<open>"oneof"\<close>); \<open>rec\<close> is the
  recursive call of \<open>genValue\<close> with the model and the options fixed.
\<close>

definition oneofValue ::
  "(TypeRef \<Rightarrow> string \<Rightarrow> string \<Rightarrow> string option) \<Rightarrow> Model \<Rightarrow> string \<Rightarrow> GenerateOptions \<Rightarrow> string option" where
  "oneofValue rec m name opts =
     (case OneOfs m name of
        None \<Rightarrow> Some ''nil''
      | Some impl \<Rightarrow>
          if impl \<noteq> [] then
            (case Structs m impl of
               None \<Rightarrow> Some (''&'' @ prefixType opts impl @ ''{}'')
             | Some implStruct \<Rightarrow>
                 (case fieldsLoop (\<lambda>field. rec (Field_Type field) (Field_Name field) impl)
                         (Struct_Fields implStruct) [] of
                    None \<Rightarrow> None
                  | Some structFields \<Rightarrow>
                      if structFields \<noteq> [] then
                        Some (''&'' @ prefixType opts impl @ ''{'' @ NL @ TAB @ TAB @ TAB
                              @ join structFields ('','' @ NL @ TAB @ TAB @ TAB)
                              @ '','' @ NL @ TAB @ TAB @ ''}'')
                      else Some (''&'' @ prefixType opts impl @ ''{}'')))
          else Some ''nil'')"

text \<open>
  \<open>genValue\<close> calls itself on the element of a slice or pointer and, for a oneof, on
  every field of the member struct looked up in the model. Nothing in the source bounds
  the second kind of call, so the model carries the depth of the Go call stack that is
  still available as its first argument: every call uses one level, and \<open>None\<close> is a
  call that did not return within that depth.
\<close>

fun genValue :: "nat \<Rightarrow> Model \<Rightarrow> TypeRef \<Rightarrow> string \<Rightarrow> string \<Rightarrow> GenerateOptions \<Rightarrow> string option" where
  "genValue 0 m t fieldName structName opts = None"
| "genValue (Suc n) m t fieldName structName opts =
     (if Kind t = ''primitive'' then Some (genPrimitiveValue (Name t) fieldName structName)
      else if Kind t = ''struct'' then
        (if length (Name t) > 2 \<and> take 2 (Name t) = ''is'' then
           oneofValue (\<lambda>t' f s. genValue n m t' f s opts) m (Name t) opts
         else if TypeDefs m (Name t) \<noteq> None then
           (if ModStyle opts then Some (''*Fixture'' @ FuncPrefix opts @ Name t @ ''()'')
            else Some (''Fixture'' @ FuncPrefix opts @ Name t @ ''()''))
         else if ModStyle opts then Some (''*Fixture'' @ FuncPrefix opts @ Name t @ ''()'')
         else Some (''Fixture'' @ FuncPrefix opts @ Name t @ ''()''))
      else if Kind t = ''enum'' then
        (if ModStyle opts then Some (''*Fixture'' @ FuncPrefix opts @ Name t @ ''()'')
         else Some (''Fixture'' @ FuncPrefix opts @ Name t @ ''()''))
      else if Kind t = ''typedef'' then
        (if ModStyle opts then Some (''*Fixture'' @ FuncPrefix opts @ Name t @ ''()'')
         else Some (''Fixture'' @ FuncPrefix opts @ Name t @ ''()''))
      else if Kind t = ''oneof'' then
        oneofValue (\<lambda>t' f s. genValue n m t' f s opts) m (Name t) opts
      else if Kind t = ''slice'' then
        (case Elem t of
           None \<Rightarrow> Some ''nil''
         | Some e \<Rightarrow>
             (case genValue n m e fieldName structName opts of
                None \<Rightarrow> None
              | Some v \<Rightarrow> Some (''[]'' @ typeName e opts @ ''{'' @ v @ ''}'')))
      else if Kind t = ''pointer'' then
        (case Elem t of
           None \<Rightarrow> Some ''nil''
         | Some e \<Rightarrow>
             if Kind e = ''unknown'' then Some ''nil''
             else if Kind e = ''external'' \<and> ExternalTypes (Name e) \<noteq> None then
               (case ExternalTypes (Name e) of Some ext \<Rightarrow> Some (ext_Value ext) | None \<Rightarrow> None)
             else if ModStyle opts
                     \<and> (Kind e = ''struct'' \<or> Kind e = ''enum'' \<or> Kind e = ''typedef'') then
               genValue n m e fieldName structName opts
             else
               (case genValue n m e fieldName structName opts of
                  None \<Rightarrow> None
                | Some v \<Rightarrow> Some (''ptr('' @ v @ '')'')))
      else if Kind t = ''external'' then
        (case ExternalTypes (Name t) of
           Some ext \<Rightarrow> Some (ext_Value ext)
         | None \<Rightarrow> Some ''nil'')
      else Some ''nil'')"

text \<open>\<open>GenValue\<close>, the exported entry point, fixes the mod style and no prefixes.\<close>

definition GenValue :: "nat \<Rightarrow> Model \<Rightarrow> TypeRef \<Rightarrow> string \<Rightarrow> string \<Rightarrow> string option" where
  "GenValue n m t fieldName structName =
     genValue n m t fieldName structName \<lparr>TypePrefix = [], FuncPrefix = [], ModStyle = True\<rparr>"

section \<open>The emission driver\<close>

text \<open>
  The driver ranges over the Go maps of the model. Go leaves the order of a \<open>range\<close>
  over a map to the runtime, so the model takes that order as an input: an \<open>IterOrder\<close>
  lists keys in the order in which the runtime visits them at each \<open>range\<close> whose
  order reaches the output, and \<open>rangeMap\<close> visits the entries of a map in that order.
  Every order in which a run can visit a map is given by a list with no repetition
  that holds all its keys (\<open>validOrder\<close>).
\<close>

record IterOrder =
  ord_TypeDefs :: "string list"
  ord_Enums :: "string list"
  ord_Structs :: "string list"
  ord_imports :: "string list"

fun rangeMap :: "'k list \<Rightarrow> ('k \<rightharpoonup> 'v) \<Rightarrow> 'v list" where
  "rangeMap [] mp = []"
| "rangeMap (k # ks) mp = (case mp k of None \<Rightarrow> rangeMap ks mp | Some v \<Rightarrow> v # rangeMap ks mp)"

fun collectExternalTypes :: "TypeRef \<Rightarrow> string list \<Rightarrow> string list" where
  "collectExternalTypes (TypeRef kind name elem) used =
     (let used' = (if kind = ''external'' then List.insert name used else used)
      in case elem of Some e \<Rightarrow> collectExternalTypes e used' | None \<Rightarrow> used')"

text \<open>
  \<open>usedExternals\<close> and \<open>importSet\<close> are Go maps used as sets; here they are lists
  without repetition, read only through membership and emptiness. The loop of
  \<open>collectImports\<close> over \<open>Structs\<close> only fills such a set, so the order of its \<open>range\<close>
  does not matter; it is run in the order \<open>ord_Structs\<close>. The returned slice holds the
  keys of \<open>importSet\<close> in the order of the runtime.
\<close>

definition usedExternals :: "IterOrder \<Rightarrow> Model \<Rightarrow> string list" where
  "usedExternals ord m =
     foldl (\<lambda>used s. foldl (\<lambda>used' f. collectExternalTypes (Field_Type f) used') used (Struct_Fields s))
       [] (rangeMap (ord_Structs ord) (Structs m))"

definition importSet :: "string list \<Rightarrow> string list" where
  "importSet used =
     (if used \<noteq> [] then
        foldl (\<lambda>st extName. case ExternalTypes extName of
                                Some ext \<Rightarrow> List.insert (ext_Import ext) st
                              | None \<Rightarrow> st)
          (foldl (\<lambda>st imp. List.insert imp st) [] RequiredImports) used
      else [])"

definition collectImports :: "IterOrder \<Rightarrow> Model \<Rightarrow> string \<Rightarrow> string list" where
  "collectImports ord m typePrefix =
     (let used = usedExternals ord m in
      if used = [] \<and> typePrefix = [] then []
      else if importSet used = [] then []
      else filter (\<lambda>imp. imp \<in> set (importSet used)) (ord_imports ord))"

definition validOrder :: "IterOrder \<Rightarrow> Model \<Rightarrow> bool" where
  "validOrder ord m =
     (distinct (ord_TypeDefs ord) \<and> dom (TypeDefs m) \<subseteq> set (ord_TypeDefs ord)
      \<and> distinct (ord_Enums ord) \<and> dom (Enums m) \<subseteq> set (ord_Enums ord)
      \<and> distinct (ord_Structs ord) \<and> dom (Structs m) \<subseteq> set (ord_Structs ord)
      \<and> distinct (ord_imports ord)
      \<and> set (importSet (usedExternals ord m)) \<subseteq> set (ord_imports ord))"

text \<open>
  The output buffer \<open>b\<close> is threaded through the writes; each function below is the
  body of one loop of \<open>GenerateWithOptions\<close>.
\<close>

definition writeTypeDef :: "GenerateOptions \<Rightarrow> string \<Rightarrow> TypeDef \<Rightarrow> string" where
  "writeTypeDef opts b td =
     (if ModStyle opts then
        b @ ''func Fixture'' @ FuncPrefix opts @ TypeDef_Name td @ ''(mods ...func(*''
          @ prefixType opts (TypeDef_Name td) @ '')) *'' @ prefixType opts (TypeDef_Name td) @ '' {'' @ NL
          @ TAB @ ''result := &''
          @ (prefixType opts (TypeDef_Name td) @ ''(''
             @ genPrimitiveValue (Name (TypeDef_Underlying td)) (TypeDef_Name td) (TypeDef_Name td) @ '')'') @ NL
          @ TAB @ ''for _, mod := range mods {'' @ NL
          @ TAB @ TAB @ ''mod(result)'' @ NL
          @ TAB @ ''}'' @ NL
          @ TAB @ ''return result'' @ NL
      else
        b @ ''func Fixture'' @ FuncPrefix opts @ TypeDef_Name td @ ''() ''
          @ prefixType opts (TypeDef_Name td) @ '' {'' @ NL
          @ TAB @ ''return '' @ prefixType opts (TypeDef_Name td) @ ''(''
          @ genPrimitiveValue (Name (TypeDef_Underlying td)) (TypeDef_Name td) (TypeDef_Name td) @ '')'' @ NL)
     @ ''}'' @ NL @ NL"

text \<open>The inner loop of the enum block: the first value that is neither \<open>_\<close> nor
  \<open>EnforceVersion\<close>, and the empty string when the loop ends without a \<open>break\<close>.\<close>

fun firstValue :: "string list \<Rightarrow> string" where
  "firstValue [] = []"
| "firstValue (v # vs) = (if v \<noteq> ''_'' \<and> v \<noteq> ''EnforceVersion'' then v else firstValue vs)"

definition writeEnum :: "GenerateOptions \<Rightarrow> string \<Rightarrow> Enum \<Rightarrow> string" where
  "writeEnum opts b e =
     (let fv = firstValue (Enum_Values e) in
      if fv = [] then b
      else
        (if ModStyle opts then
           b @ ''func Fixture'' @ FuncPrefix opts @ Enum_Name e @ ''(mods ...func(*''
             @ prefixType opts (Enum_Name e) @ '')) *'' @ prefixType opts (Enum_Name e) @ '' {'' @ NL
             @ TAB @ ''value := '' @ prefixType opts fv @ NL
             @ TAB @ ''for _, mod := range mods {'' @ NL
             @ TAB @ TAB @ ''mod(&value)'' @ NL
             @ TAB @ ''}'' @ NL
             @ TAB @ ''return &value'' @ NL
         else
           b @ ''func Fixture'' @ FuncPrefix opts @ Enum_Name e @ ''() ''
             @ prefixType opts (Enum_Name e) @ '' {'' @ NL
             @ TAB @ ''return '' @ prefixType opts fv @ NL)
        @ ''}'' @ NL @ NL)"

fun writeFields :: "nat \<Rightarrow> Model \<Rightarrow> GenerateOptions \<Rightarrow> string \<Rightarrow> string \<Rightarrow> Field list \<Rightarrow> string option" where
  "writeFields n m opts sname b [] = Some b"
| "writeFields n m opts sname b (f # fs) =
     (case genValue n m (Field_Type f) (Field_Name f) sname opts of
        None \<Rightarrow> None
      | Some v \<Rightarrow> writeFields n m opts sname (b @ TAB @ TAB @ Field_Name f @ '': '' @ v @ '','' @ NL) fs)"

definition writeStruct :: "nat \<Rightarrow> Model \<Rightarrow> GenerateOptions \<Rightarrow> string \<Rightarrow> Struct \<Rightarrow> string option" where
  "writeStruct n m opts b s =
     (if ModStyle opts then
        (case writeFields n m opts (Struct_Name s)
                (b @ ''func Fixture'' @ FuncPrefix opts @ Struct_Name s @ ''(mods ...func(*''
                   @ prefixType opts (Struct_Name s) @ '')) *'' @ prefixType opts (Struct_Name s) @ '' {'' @ NL
                   @ TAB @ ''value := &'' @ prefixType opts (Struct_Name s) @ ''{'' @ NL)
                (Struct_Fields s) of
           None \<Rightarrow> None
         | Some b' \<Rightarrow>
             Some (b' @ TAB @ ''}'' @ NL
                   @ TAB @ ''for _, mod := range mods {'' @ NL
                   @ TAB @ TAB @ ''mod(value)'' @ NL
                   @ TAB @ ''}'' @ NL
                   @ TAB @ ''return value'' @ NL
                   @ ''}'' @ NL @ NL))
      else
        (case writeFields n m opts (Struct_Name s)
                (b @ ''func Fixture'' @ FuncPrefix opts @ Struct_Name s @ ''() ''
                   @ prefixType opts (Struct_Name s) @ '' {'' @ NL
                   @ TAB @ ''return '' @ prefixType opts (Struct_Name s) @ ''{'' @ NL)
                (Struct_Fields s) of
           None \<Rightarrow> None
         | Some b' \<Rightarrow> Some (b' @ TAB @ ''}'' @ NL @ ''}'' @ NL @ NL)))"

fun writeStructs :: "nat \<Rightarrow> Model \<Rightarrow> GenerateOptions \<Rightarrow> string \<Rightarrow> Struct list \<Rightarrow> string option" where
  "writeStructs n m opts b [] = Some b"
| "writeStructs n m opts b (s # ss) =
     (case writeStruct n m opts b s of
        None \<Rightarrow> None
      | Some b' \<Rightarrow> writeStructs n m opts b' ss)"

definition writeImports :: "string \<Rightarrow> string list \<Rightarrow> string" where
  "writeImports b imports =
     (if imports \<noteq> [] then
        foldl (\<lambda>b' imp. b' @ TAB @ imp @ NL) (b @ ''import ('' @ NL) imports @ '')'' @ NL @ NL
      else b)"

definition GenerateWithOptions :: "nat \<Rightarrow> IterOrder \<Rightarrow> Model \<Rightarrow> string \<Rightarrow> GenerateOptions \<Rightarrow> string option" where
  "GenerateWithOptions n ord m pkgName opts =
     (let b0 = ''package '' @ pkgName @ NL @ NL;
          b1 = writeImports b0 (collectImports ord m (TypePrefix opts));
          b2 = b1 @ ''func ptr[T any](v T) *T { return &v }'' @ NL @ NL;
          b3 = foldl (writeTypeDef opts) b2 (rangeMap (ord_TypeDefs ord) (TypeDefs m));
          b4 = foldl (writeEnum opts) b3 (rangeMap (ord_Enums ord) (Enums m))
      in writeStructs n m opts b4 (rangeMap (ord_Structs ord) (Structs m)))"

definition Generate :: "nat \<Rightarrow> IterOrder \<Rightarrow> Model \<Rightarrow> string \<Rightarrow> string option" where
  "Generate n ord m pkgName =
     GenerateWithOptions n ord m pkgName \<lparr>TypePrefix = [], FuncPrefix = [], ModStyle = True\<rparr>"

text \<open>
  \<open>format.Source\<close> belongs to the Go standard library; it is a parameter here, and
  returns either an error or the formatted text. The Go functions return the pair of
  a string and an error, which is \<open>None\<close> for \<open>nil\<close>.
\<close>

type_synonym go_error = string

definition GenerateFormattedWithOptions ::
  "(string \<Rightarrow> go_error + string) \<Rightarrow> nat \<Rightarrow> IterOrder \<Rightarrow> Model \<Rightarrow> string \<Rightarrow> GenerateOptions
     \<Rightarrow> (string \<times> go_error option) option" where
  "GenerateFormattedWithOptions format_Source n ord m pkgName opts =
     (case GenerateWithOptions n ord m pkgName opts of
        None \<Rightarrow> None
      | Some out \<Rightarrow>
          (case format_Source out of
             Inl err \<Rightarrow> Some (out, None)
           | Inr formatted \<Rightarrow> Some (formatted, None)))"

definition GenerateFormatted ::
  "(string \<Rightarrow> go_error + string) \<Rightarrow> nat \<Rightarrow> IterOrder \<Rightarrow> Model \<Rightarrow> string
     \<Rightarrow> (string \<times> go_error option) option" where
  "GenerateFormatted format_Source n ord m pkgName =
     GenerateFormattedWithOptions format_Source n ord m pkgName
       \<lparr>TypePrefix = [], FuncPrefix = [], ModStyle = True\<rparr>"

section \<open>The syntax-only front-end\<close>

text \<open>
  \<open>ParseSource\<close> reads the declarations that \<open>go/parser\<close> returns. The part of the
  Go syntax tree it inspects: declarations with their token, type specs with a name
  and a type expression, and the field lists of struct types (the names of a field
  entry and its type expression).
\<close>

datatype expr =
    Ident string
  | StarExpr expr
  | ArrayType expr
  | SelectorExpr expr string
  | StructType "(string list \<times> expr) list"
  | InterfaceType
  | OtherExpr

datatype token = token_IMPORT | token_CONST | token_TYPE | token_VAR

datatype spec = TypeSpec string expr | ImportSpec | ValueSpec

datatype decl = GenDecl token "spec list" | FuncDecl | BadDecl

datatype error = ParseError go_error | IndexOutOfRange

definition primitiveTypes :: "string list" where
  "primitiveTypes = [''string'', ''bool''] @ numericTypes"

fun exprToTypeRef :: "expr \<Rightarrow> TypeRef" where
  "exprToTypeRef (Ident name) =
     (if name \<in> set primitiveTypes then TypeRef ''primitive'' name None
      else if ExternalTypes name \<noteq> None then TypeRef ''external'' name None
      else TypeRef ''struct'' name None)"
| "exprToTypeRef (StarExpr x) = TypeRef ''pointer'' [] (Some (exprToTypeRef x))"
| "exprToTypeRef (ArrayType elt) =
     (let elem = exprToTypeRef elt in TypeRef ''slice'' (Name elem) (Some elem))"
| "exprToTypeRef (SelectorExpr x sel) =
     (if ExternalTypes sel \<noteq> None then TypeRef ''external'' sel None
      else TypeRef ''struct'' sel None)"
| "exprToTypeRef (StructType flds) = TypeRef ''unknown'' [] None"
| "exprToTypeRef InterfaceType = TypeRef ''unknown'' [] None"
| "exprToTypeRef OtherExpr = TypeRef ''unknown'' [] None"

text \<open>\<open>name[0] >= 'a' && name[0] <= 'z'\<close> on bytes; indexing the empty string panics.\<close>

definition lowerFirst :: "string \<Rightarrow> error + bool" where
  "lowerFirst name =
     (case name of
        [] \<Rightarrow> Inl IndexOutOfRange
      | c # _ \<Rightarrow> Inr (97 \<le> (of_char c :: nat) \<and> (of_char c :: nat) \<le> 122))"

text \<open>
  The scan of the parent name for separators, \<open>for i := len(parentName) - 1; i >= 0; i--\<close>.
  The third argument is \<open>i + 1\<close>; the result is the position at which the loop
  assigned and left with \<open>break\<close>, or \<open>None\<close> when it ran to the end.
\<close>

fun scanSeparators :: "string \<Rightarrow> string \<Rightarrow> nat \<Rightarrow> nat option" where
  "scanSeparators parentName name 0 = None"
| "scanSeparators parentName name (Suc i) =
     (if parentName ! i = CHR ''_'' then
        (let pre = take i parentName in
         if length name > length pre \<and> take (length pre) name = pre
            \<and> name ! length pre = CHR ''_''
         then Some i
         else scanSeparators parentName name i)
      else scanSeparators parentName name i)"

text \<open>
  The loop \<open>for ifaceName := range m.OneOfs\<close> that \<open>ParseSource\<close> and \<open>extractOneOfs\<close>
  run for a struct declaration named \<open>name\<close>. Each iteration reads and writes the
  entry of its own key only, so the loop is a pointwise change of the map and the order
  of the \<open>range\<close> has no effect. Every key is an interface name that was registered with
  more than two characters (\<open>buildModel_OneOfs_keys\<close> below), so \<open>ifaceName[2:]\<close> is
  in range and is \<open>drop 2 ifaceName\<close>.
\<close>

definition assignOneOfs :: "string \<Rightarrow> (string \<rightharpoonup> string) \<Rightarrow> (string \<rightharpoonup> string)" where
  "assignOneOfs name oneofs =
     (\<lambda>ifaceName.
        case oneofs ifaceName of
          None \<Rightarrow> None
        | Some cur \<Rightarrow>
            if cur = [] then
              (let parentName = drop 2 ifaceName in
               case scanSeparators parentName name (length parentName) of
                 Some i \<Rightarrow> Some name
               | None \<Rightarrow> Some cur)
            else Some cur)"

fun structFields :: "(string list \<times> expr) list \<Rightarrow> Field list \<Rightarrow> error + Field list" where
  "structFields [] acc = Inr acc"
| "structFields ((names, ty) # rest) acc =
     (case names of
        [] \<Rightarrow> structFields rest acc
      | fieldName # _ \<Rightarrow>
          if ProtoInternalFields fieldName then structFields rest acc
          else
            (case lowerFirst fieldName of
               Inl err \<Rightarrow> Inl err
             | Inr lower \<Rightarrow>
                 if lower then structFields rest acc
                 else structFields rest
                        (acc @ [\<lparr>Field_Name = fieldName, Field_Type = exprToTypeRef ty\<rparr>])))"

fun firstPassSpec :: "spec \<Rightarrow> Model \<Rightarrow> error + Model" where
  "firstPassSpec (TypeSpec name t) m =
     (if t = InterfaceType \<and> length name > 2 \<and> take 2 name = ''is'' then
        Inr (m\<lparr>OneOfs := (OneOfs m)(name \<mapsto> [])\<rparr>)
      else
        (case lowerFirst name of
           Inl err \<Rightarrow> Inl err
         | Inr lower \<Rightarrow> Inr m))"
| "firstPassSpec ImportSpec m = Inr m"
| "firstPassSpec ValueSpec m = Inr m"

fun secondPassSpec :: "spec \<Rightarrow> Model \<Rightarrow> error + Model" where
  "secondPassSpec (TypeSpec name t) m =
     (case lowerFirst name of
        Inl err \<Rightarrow> Inl err
      | Inr lower \<Rightarrow>
          if lower then Inr m
          else
            (case t of
               StructType flds \<Rightarrow>
                 (case structFields flds [] of
                    Inl err \<Rightarrow> Inl err
                  | Inr fs \<Rightarrow>
                      (let m1 = (if fs \<noteq> []
                                 then m\<lparr>Structs := (Structs m)(name \<mapsto> \<lparr>Struct_Name = name, Struct_Fields = fs\<rparr>)\<rparr>
                                 else m)
                       in Inr (m1\<lparr>OneOfs := assignOneOfs name (OneOfs m1)\<rparr>)))
             | Ident x \<Rightarrow>
                 (let underlying = exprToTypeRef t in
                  if Kind underlying = ''primitive''
                  then Inr (m\<lparr>TypeDefs := (TypeDefs m)(name \<mapsto> \<lparr>TypeDef_Name = name, TypeDef_Underlying = underlying\<rparr>)\<rparr>)
                  else Inr m)
             | _ \<Rightarrow> Inr m))"
| "secondPassSpec ImportSpec m = Inr m"
| "secondPassSpec ValueSpec m = Inr m"

fun forSpecs :: "(spec \<Rightarrow> Model \<Rightarrow> error + Model) \<Rightarrow> spec list \<Rightarrow> Model \<Rightarrow> error + Model" where
  "forSpecs body [] m = Inr m"
| "forSpecs body (sp # specs) m =
     (case body sp m of Inl err \<Rightarrow> Inl err | Inr m' \<Rightarrow> forSpecs body specs m')"

fun forDecls :: "(spec \<Rightarrow> Model \<Rightarrow> error + Model) \<Rightarrow> decl list \<Rightarrow> Model \<Rightarrow> error + Model" where
  "forDecls body [] m = Inr m"
| "forDecls body (GenDecl tok specs # decls) m =
     (if tok \<noteq> token_TYPE then forDecls body decls m
      else (case forSpecs body specs m of
              Inl err \<Rightarrow> Inl err
            | Inr m' \<Rightarrow> forDecls body decls m'))"
| "forDecls body (d # decls) m = forDecls body decls m"

text \<open>The two passes of \<open>ParseSource\<close> over the declarations of the parsed file.\<close>

definition buildModel :: "decl list \<Rightarrow> error + Model" where
  "buildModel decls =
     (case forDecls firstPassSpec decls NewModel of
        Inl err \<Rightarrow> Inl err
      | Inr m \<Rightarrow> forDecls secondPassSpec decls m)"

text \<open>\<open>parser.ParseFile\<close> belongs to the Go standard library and is a parameter.\<close>

definition ParseSource :: "(string \<Rightarrow> go_error + decl list) \<Rightarrow> string \<Rightarrow> error + Model" where
  "ParseSource parser_ParseFile source =
     (case parser_ParseFile source of
        Inl err \<Rightarrow> Inl (ParseError (''parse error: '' @ err))
      | Inr decls \<Rightarrow> buildModel decls)"

text \<open>
  The body of the loop of \<open>extractOneOfs\<close> (the type-checking front-end) for one type
  spec: a struct runs the same assignment loop, an interface whose name starts with
  \<open>is\<close> is registered with no member.
\<close>

fun extractOneOfsSpec :: "spec \<Rightarrow> (string \<rightharpoonup> string) \<Rightarrow> (string \<rightharpoonup> string)" where
  "extractOneOfsSpec (TypeSpec name t) oneofs =
     (let o1 = (case t of StructType flds \<Rightarrow> assignOneOfs name oneofs | _ \<Rightarrow> oneofs)
      in if t = InterfaceType \<and> length name > 2 \<and> take 2 name = ''is''
         then o1(name \<mapsto> [])
         else o1)"
| "extractOneOfsSpec ImportSpec oneofs = oneofs"
| "extractOneOfsSpec ValueSpec oneofs = oneofs"

text \<open>
  \<open>extractEnums\<close> (the type-checking front-end) fills \<open>Enums\<close>; the syntax-only
  front-end never does. It ranges over \<open>pkg.TypesInfo.Defs\<close>, a Go map from the
  defining identifiers of the package to the objects they define. An identifier is
  given here by its position in the source, so that the declaration order is the order
  of the keys, while the \<open>range\<close> visits them in the order of the runtime, which is an
  argument as for the maps of the model. Of an object the loop reads whether it is a
  constant, and of the type of a constant whether it is a named type.
\<close>

datatype go_type = Named string | Basic string | OtherType

datatype object = Const go_type | OtherObject

fun extractEnumsEntry :: "Model \<Rightarrow> string \<times> object \<Rightarrow> Model" where
  "extractEnumsEntry m (identName, Const ty) =
     (if identName = ''_'' \<or> identName = ''EnforceVersion'' then m
      else
        (case ty of
           Named name \<Rightarrow>
             (let e = (case Enums m name of
                         Some e' \<Rightarrow> e'
                       | None \<Rightarrow> \<lparr>Enum_Name = name, Enum_Values = []\<rparr>)
              in m\<lparr>Enums := (Enums m)(name \<mapsto> e\<lparr>Enum_Values := Enum_Values e @ [identName]\<rparr>)\<rparr>)
         | Basic bname \<Rightarrow> m
         | OtherType \<Rightarrow> m))"
| "extractEnumsEntry m (identName, OtherObject) = m"

definition extractEnums :: "nat list \<Rightarrow> (nat \<rightharpoonup> string \<times> object) \<Rightarrow> Model \<Rightarrow> Model" where
  "extractEnums ord defs m = foldl extractEnumsEntry m (rangeMap ord defs)"

section \<open>Notions used to state the properties\<close>

text \<open>
  The literals of a oneof member as the specification describes them: the empty
  literal \<open>&Member{}\<close>, and the populated literal, which holds one line
  \<open>name: value,\<close> for every field of the member. \<open>fieldValues\<close> pairs every field
  of the member with the value that \<open>genValue\<close> synthesizes for it, with the member
  as the enclosing type.
\<close>

definition emptyLiteral :: "GenerateOptions \<Rightarrow> string \<Rightarrow> string" where
  "emptyLiteral opts impl = ''&'' @ prefixType opts impl @ ''{}''"

definition populatedLiteral :: "GenerateOptions \<Rightarrow> string \<Rightarrow> (string \<times> string) list \<Rightarrow> string" where
  "populatedLiteral opts impl entries =
     ''&'' @ prefixType opts impl @ ''{''
       @ concat (map (\<lambda>(f, v). NL @ TAB @ TAB @ TAB @ f @ '': '' @ v @ '','') entries)
       @ NL @ TAB @ TAB @ ''}''"

fun fieldValues :: "nat \<Rightarrow> Model \<Rightarrow> GenerateOptions \<Rightarrow> string \<Rightarrow> Field list \<Rightarrow> (string \<times> string) list option" where
  "fieldValues n m opts impl [] = Some []"
| "fieldValues n m opts impl (f # fs) =
     (case genValue n m (Field_Type f) (Field_Name f) impl opts of
        None \<Rightarrow> None
      | Some v \<Rightarrow>
          (case fieldValues n m opts impl fs of
             None \<Rightarrow> None
           | Some vs \<Rightarrow> Some ((Field_Name f, v) # vs)))"

text \<open>The values that the enum block never picks as a default.\<close>

definition reservedValues :: "string list" where
  "reservedValues = [''_'', ''EnforceVersion'']"

text \<open>
  The texts of the struct constructors, one per struct, each written to an empty
  buffer; and sets with at most one element.
\<close>

fun structBlocks :: "nat \<Rightarrow> Model \<Rightarrow> GenerateOptions \<Rightarrow> Struct list \<Rightarrow> string list option" where
  "structBlocks n m opts [] = Some []"
| "structBlocks n m opts (s # ss) =
     (case writeStruct n m opts [] s of
        None \<Rightarrow> None
      | Some t \<Rightarrow>
          (case structBlocks n m opts ss of
             None \<Rightarrow> None
           | Some ts \<Rightarrow> Some (t # ts)))"

definition atMostOne :: "'a set \<Rightarrow> bool" where
  "atMostOne S = (\<forall>x\<in>S. \<forall>y\<in>S. x = y)"

text \<open>
  The test of the grouping heuristic in the words of the specification: position \<open>i\<close>
  of the parent name holds an underscore, and the record name begins with the part of
  the parent name before that underscore, followed by an underscore.
\<close>

definition matchesAt :: "string \<Rightarrow> string \<Rightarrow> nat \<Rightarrow> bool" where
  "matchesAt parentName name i =
     (i < length parentName \<and> parentName ! i = CHR ''_'' \<and> prefix (take i parentName @ ''_'') name)"

text \<open>
  The field entries of a struct declaration that the front-end keeps: named, not one
  of \<open>ProtoInternalFields\<close>, and with a first character outside \<open>a\<close>..\<open>z\<close>; the model
  field made of such an entry; and the type specs of a file, in the order in which the
  two passes visit them.
\<close>

definition eligible :: "string list \<times> expr \<Rightarrow> bool" where
  "eligible fld =
     (case fst fld of
        [] \<Rightarrow> False
      | fieldName # _ \<Rightarrow> \<not> ProtoInternalFields fieldName \<and> lowerFirst fieldName = Inr False)"

definition toField :: "string list \<times> expr \<Rightarrow> Field" where
  "toField fld = \<lparr>Field_Name = hd (fst fld), Field_Type = exprToTypeRef (snd fld)\<rparr>"

fun typeSpecs :: "decl list \<Rightarrow> spec list" where
  "typeSpecs [] = []"
| "typeSpecs (GenDecl tok specs # decls) =
     (if tok = token_TYPE then specs @ typeSpecs decls else typeSpecs decls)"
| "typeSpecs (d # decls) = typeSpecs decls"

text \<open>
  The nesting depth of a type reference, and the references that hold no oneof at any
  level (neither the kind \<open>oneof\<close> nor a struct reference whose name starts with
  \<open>is\<close>).
\<close>

fun typeDepth :: "TypeRef \<Rightarrow> nat" where
  "typeDepth (TypeRef kind name elem) = (case elem of None \<Rightarrow> 0 | Some e \<Rightarrow> Suc (typeDepth e))"

fun oneofFree :: "TypeRef \<Rightarrow> bool" where
  "oneofFree (TypeRef kind name elem) =
     (kind \<noteq> ''oneof'' \<and> \<not> (kind = ''struct'' \<and> length name > 2 \<and> take 2 name = ''is'')
      \<and> (case elem of None \<Rightarrow> True | Some e \<Rightarrow> oneofFree e))"

text \<open>
  The names of the constants of the named type \<open>name\<close> among the entries of \<open>Defs\<close>,
  in the order of the entries and without the reserved names; and an enum entry after
  values have been appended to it.
\<close>

fun constNames :: "string \<Rightarrow> (string \<times> object) list \<Rightarrow> string list" where
  "constNames name [] = []"
| "constNames name ((identName, obj) # entries) =
     (if obj = Const (Named name) \<and> identName \<notin> set reservedValues
      then identName # constNames name entries
      else constNames name entries)"

definition appendValues :: "string \<Rightarrow> string list \<Rightarrow> Enum option \<Rightarrow> Enum option" where
  "appendValues name vs eo =
     (if vs = [] then eo
      else (case eo of
              Some e \<Rightarrow> Some (e\<lparr>Enum_Values := Enum_Values e @ vs\<rparr>)
            | None \<Rightarrow> Some \<lparr>Enum_Name = name, Enum_Values = vs\<rparr>))"

section \<open>Example inputs\<close>

text \<open>Options of the two emission styles, and the visiting orders used in the examples.\<close>

definition modOpts :: GenerateOptions where
  "modOpts = \<lparr>TypePrefix = [], FuncPrefix = [], ModStyle = True\<rparr>"

definition classicOpts :: GenerateOptions where
  "classicOpts = \<lparr>TypePrefix = [], FuncPrefix = [], ModStyle = False\<rparr>"

text \<open>
  A oneof whose member holds a field of the oneof itself:
  \<^verbatim>\<open>
  type isNode_Kind interface{ isNode_Kind() }
  type Node_Leaf struct{ Next isNode_Kind }
  \<close>
\<close>

definition nodeDecls :: "decl list" where
  "nodeDecls =
     [GenDecl token_TYPE [TypeSpec ''isNode_Kind'' InterfaceType],
      GenDecl token_TYPE [TypeSpec ''Node_Leaf'' (StructType [([''Next''], Ident ''isNode_Kind'')])]]"

definition nodeModel :: Model where
  "nodeModel =
     \<lparr>Structs = [''Node_Leaf'' \<mapsto>
                   \<lparr>Struct_Name = ''Node_Leaf'',
                    Struct_Fields = [\<lparr>Field_Name = ''Next'',
                                      Field_Type = TypeRef ''struct'' ''isNode_Kind'' None\<rparr>]\<rparr>],
      Enums = Map.empty,
      TypeDefs = Map.empty,
      OneOfs = [''isNode_Kind'' \<mapsto> ''Node_Leaf'']\<rparr>"

definition nodeOrder :: IterOrder where
  "nodeOrder = \<lparr>ord_TypeDefs = [], ord_Enums = [], ord_Structs = [''Node_Leaf''], ord_imports = []\<rparr>"

text \<open>The oneof model of the package tests: \<open>isUserReference_Id\<close> with the member
  \<open>UserReference_EmailId\<close>.\<close>

definition oneofModel :: Model where
  "oneofModel =
     \<lparr>Structs = [''UserReference_EmailId'' \<mapsto>
                   \<lparr>Struct_Name = ''UserReference_EmailId'',
                    Struct_Fields = [\<lparr>Field_Name = ''EmailId'',
                                      Field_Type = TypeRef ''primitive'' ''string'' None\<rparr>]\<rparr>],
      Enums = Map.empty,
      TypeDefs = Map.empty,
      OneOfs = [''isUserReference_Id'' \<mapsto> ''UserReference_EmailId'']\<rparr>"

text \<open>The record \<open>User\<close> of the package tests, with two visiting orders that list
  different keys around it.\<close>

definition userModel :: Model where
  "userModel =
     \<lparr>Structs = [''User'' \<mapsto>
                   \<lparr>Struct_Name = ''User'',
                    Struct_Fields = [\<lparr>Field_Name = ''FirstName'', Field_Type = TypeRef ''primitive'' ''string'' None\<rparr>,
                                     \<lparr>Field_Name = ''Age'', Field_Type = TypeRef ''primitive'' ''int'' None\<rparr>]\<rparr>],
      Enums = Map.empty,
      TypeDefs = Map.empty,
      OneOfs = Map.empty\<rparr>"

definition userOrder :: IterOrder where
  "userOrder = \<lparr>ord_TypeDefs = [], ord_Enums = [], ord_Structs = [''User''], ord_imports = []\<rparr>"

definition userOrder2 :: IterOrder where
  "userOrder2 = \<lparr>ord_TypeDefs = [''T''], ord_Enums = [''E''], ord_Structs = [''Zed'', ''User''], ord_imports = [''x'']\<rparr>"

text \<open>
  Two aliases, as read from \<^verbatim>\<open>type A string\<close> and \<^verbatim>\<open>type B string\<close>, and the two
  orders in which a \<open>range\<close> over \<open>TypeDefs\<close> can visit them.
\<close>

definition aliasDecls :: "decl list" where
  "aliasDecls =
     [GenDecl token_TYPE [TypeSpec ''A'' (Ident ''string'')],
      GenDecl token_TYPE [TypeSpec ''B'' (Ident ''string'')]]"

definition aliasModel :: Model where
  "aliasModel =
     \<lparr>Structs = Map.empty,
      Enums = Map.empty,
      TypeDefs = [''A'' \<mapsto> \<lparr>TypeDef_Name = ''A'', TypeDef_Underlying = TypeRef ''primitive'' ''string'' None\<rparr>,
                  ''B'' \<mapsto> \<lparr>TypeDef_Name = ''B'', TypeDef_Underlying = TypeRef ''primitive'' ''string'' None\<rparr>],
      OneOfs = Map.empty\<rparr>"

definition orderAB :: IterOrder where
  "orderAB = \<lparr>ord_TypeDefs = [''A'', ''B''], ord_Enums = [], ord_Structs = [], ord_imports = []\<rparr>"

definition orderBA :: IterOrder where
  "orderBA = \<lparr>ord_TypeDefs = [''B'', ''A''], ord_Enums = [], ord_Structs = [], ord_imports = []\<rparr>"

text \<open>The text generated for \<open>userModel\<close> in the classic style.\<close>

definition userText :: string where
  "userText =
     ''package fixtures'' @ NL @ NL
     @ ''func ptr[T any](v T) *T { return &v }'' @ NL @ NL
     @ ''func FixtureUser() User {'' @ NL
     @ TAB @ ''return User{'' @ NL
     @ TAB @ TAB @ ''FirstName: '' @ DQ @ ''FirstName'' @ DQ @ '','' @ NL
     @ TAB @ TAB @ ''Age: 1,'' @ NL
     @ TAB @ ''}'' @ NL
     @ ''}'' @ NL @ NL"

text \<open>
  A file whose struct \<open>Empty\<close> has only fields that the front-end drops (two protobuf
  internals, an unexported field and an embedded one), next to a struct with a field:
  \<^verbatim>\<open>
  type Empty struct { state int; sizeCache int32; hidden string; Embedded }
  type User struct { Name string }
  \<close>
\<close>

definition emptyStructDecls :: "decl list" where
  "emptyStructDecls =
     [GenDecl token_IMPORT [ImportSpec],
      GenDecl token_TYPE
        [TypeSpec ''Empty'' (StructType [([''state''], Ident ''int''),
                                         ([''sizeCache''], Ident ''int32''),
                                         ([''hidden''], Ident ''string''),
                                         ([], Ident ''Embedded'')]),
         TypeSpec ''User'' (StructType [([''Name''], Ident ''string'')])]]"

definition emptyStructModel :: Model where
  "emptyStructModel =
     \<lparr>Structs = [''User'' \<mapsto>
                   \<lparr>Struct_Name = ''User'',
                    Struct_Fields = [\<lparr>Field_Name = ''Name'',
                                      Field_Type = TypeRef ''primitive'' ''string'' None\<rparr>]\<rparr>],
      Enums = Map.empty,
      TypeDefs = Map.empty,
      OneOfs = Map.empty\<rparr>"

text \<open>
  A package with one enumeration,
  \<^verbatim>\<open>
  type Status int
  const (
      STATUS_UNSPECIFIED Status = iota
      STATUS_ACTIVE
  )
  \<close>
  with its three defining identifiers at positions 0, 1 and 2, the order of declaration,
  another order in which a \<open>range\<close> over \<open>Defs\<close> can visit them, and the model that
  \<open>extractEnums\<close> builds in that other order.
\<close>

definition statusDefs :: "nat \<rightharpoonup> string \<times> object" where
  "statusDefs =
     [0 \<mapsto> (''Status'', OtherObject),
      1 \<mapsto> (''STATUS_UNSPECIFIED'', Const (Named ''Status'')),
      2 \<mapsto> (''STATUS_ACTIVE'', Const (Named ''Status''))]"

definition statusDeclared :: "nat list" where
  "statusDeclared = [0, 1, 2]"

definition statusVisited :: "nat list" where
  "statusVisited = [2, 0, 1]"

definition statusModel :: Model where
  "statusModel =
     \<lparr>Structs = Map.empty,
      Enums = [''Status'' \<mapsto>
                 \<lparr>Enum_Name = ''Status'',
                  Enum_Values = [''STATUS_ACTIVE'', ''STATUS_UNSPECIFIED'']\<rparr>],
      TypeDefs = Map.empty,
      OneOfs = Map.empty\<rparr>"

definition statusOrder :: IterOrder where
  "statusOrder = \<lparr>ord_TypeDefs = [], ord_Enums = [''Status''], ord_Structs = [], ord_imports = []\<rparr>"


section \<open>Properties of the value synthesizer\<close>

subsection \<open>Depth\<close>

text \<open>
  A call that returns within some depth returns the same string within any larger
  one: the depth argument only decides whether a result is reached, never which.
\<close>

lemma fieldsLoop_mono:
  assumes "\<And>f v. g f = Some v \<Longrightarrow> g' f = Some v"
  shows "fieldsLoop g fs acc = Some r \<Longrightarrow> fieldsLoop g' fs acc = Some r"
proof (induction fs arbitrary: acc)
  case Nil then show ?case by simp
next
  case (Cons f fs)
  then show ?case using assms by (auto split: option.splits)
qed

lemma oneofValue_mono:
  assumes "\<And>t f s v. r t f s = Some v \<Longrightarrow> r' t f s = Some v"
    and "oneofValue r m name opts = Some v"
  shows "oneofValue r' m name opts = Some v"
proof (cases "OneOfs m name")
  case None
  with assms(2) show ?thesis by (simp add: oneofValue_def)
next
  case (Some impl)
  note impl = this
  show ?thesis
  proof (cases "impl = []")
    case True
    with impl assms(2) show ?thesis by (simp add: oneofValue_def)
  next
    case False
    note ne = this
    show ?thesis
    proof (cases "Structs m impl")
      case None
      with impl ne assms(2) show ?thesis by (simp add: oneofValue_def)
    next
      case (Some implStruct)
      from assms(2) impl ne Some obtain sf where
        sf: "fieldsLoop (\<lambda>field. r (Field_Type field) (Field_Name field) impl)
               (Struct_Fields implStruct) [] = Some sf"
        by (auto simp: oneofValue_def split: option.splits)
      have sf': "fieldsLoop (\<lambda>field. r' (Field_Type field) (Field_Name field) impl)
               (Struct_Fields implStruct) [] = Some sf"
        by (rule fieldsLoop_mono[OF _ sf]) (rule assms(1))
      from assms(2) show ?thesis
        by (simp add: oneofValue_def impl ne Some sf sf')
    qed
  qed
qed

lemma genValue_Suc_mono:
  assumes ih: "\<And>t' f' s' v'. genValue n m t' f' s' opts = Some v' \<Longrightarrow> genValue k m t' f' s' opts = Some v'"
    and r: "genValue (Suc n) m t f s opts = Some v"
  shows "genValue (Suc k) m t f s opts = Some v"
proof -
  have o: "oneofValue (\<lambda>t' f s. genValue n m t' f s opts) m name opts = Some w
      \<Longrightarrow> oneofValue (\<lambda>t' f s. genValue k m t' f s opts) m name opts = Some w" for name w
    by (rule oneofValue_mono[where r="\<lambda>t' f s. genValue n m t' f s opts"]) (rule ih)
  consider (prim) "Kind t = ''primitive''"
    | (isoneof) "Kind t = ''struct''" "length (Name t) > 2 \<and> take 2 (Name t) = ''is''"
    | (struct) "Kind t = ''struct''" "\<not> (length (Name t) > 2 \<and> take 2 (Name t) = ''is'')"
    | (oneof) "Kind t = ''oneof''"
    | (slice) "Kind t = ''slice''"
    | (pointer) "Kind t = ''pointer''"
    | (other) "Kind t \<noteq> ''primitive''" "Kind t \<noteq> ''struct''" "Kind t \<noteq> ''oneof''"
        "Kind t \<noteq> ''slice''" "Kind t \<noteq> ''pointer''"
    by blast
  then show ?thesis
  proof cases
    case prim
    with r show ?thesis by simp
  next
    case isoneof
    with r have "oneofValue (\<lambda>t' f s. genValue n m t' f s opts) m (Name t) opts = Some v" by simp
    from o[OF this] isoneof show ?thesis by simp
  next
    case struct
    with r show ?thesis by auto
  next
    case oneof
    with r have "oneofValue (\<lambda>t' f s. genValue n m t' f s opts) m (Name t) opts = Some v" by simp
    from o[OF this] oneof show ?thesis by simp
  next
    case slice
    show ?thesis
    proof (cases "Elem t")
      case None
      with r slice show ?thesis by simp
    next
      case (Some e)
      with r slice obtain w where w: "genValue n m e f s opts = Some w"
        and v: "v = ''[]'' @ typeName e opts @ ''{'' @ w @ ''}''"
        by (auto split: option.splits)
      from ih[OF w] v slice Some show ?thesis by simp
    qed
  next
    case pointer
    show ?thesis
    proof (cases "Elem t")
      case None
      with r pointer show ?thesis by simp
    next
      case (Some e)
      show ?thesis
      proof (cases "genValue n m e f s opts")
        case None
        with r pointer Some show ?thesis by (simp split: if_splits option.splits)
      next
        case (Some w)
        note w = ih[OF this]
        from r pointer \<open>Elem t = Some e\<close> Some w show ?thesis
          by (auto split: if_splits option.splits)
      qed
    qed
  next
    case other
    with r show ?thesis by (auto split: option.splits)
  qed
qed

lemma genValue_mono_Suc:
  "genValue n m t f s opts = Some v \<Longrightarrow> genValue (Suc n) m t f s opts = Some v"
proof (induction n arbitrary: t f s v)
  case 0
  then show ?case by simp
next
  case (Suc n)
  show ?case
    by (rule genValue_Suc_mono[OF _ Suc.prems]) (rule Suc.IH)
qed

lemma genValue_mono:
  "genValue n m t f s opts = Some v \<Longrightarrow> n \<le> k \<Longrightarrow> genValue k m t f s opts = Some v"
proof (induction k)
  case 0
  then show ?case by simp
next
  case (Suc k)
  show ?case
  proof (cases "n = Suc k")
    case True
    with Suc.prems show ?thesis by simp
  next
    case False
    with Suc.prems have "n \<le> k" by simp
    from genValue_mono_Suc[OF Suc.IH[OF Suc.prems(1) this]] show ?thesis .
  qed
qed

subsection \<open>Results are never empty; references without oneofs always have one\<close>

text \<open>
  Whatever \<open>genValue\<close> returns is a non-empty string. A reference that holds no oneof
  is synthesized within a call depth of one more than its nesting, in every model: the
  recursion through the elements of slices and pointers ends.
\<close>

lemma oneofValue_nonempty:
  "oneofValue r m name opts = Some v \<Longrightarrow> v \<noteq> []"
  by (auto simp: oneofValue_def split: option.splits if_splits)

lemma genPrimitiveValue_nonempty: "genPrimitiveValue tn f s \<noteq> []"
  by (simp add: genPrimitiveValue_def)

lemma ExternalTypes_nonempty: "ExternalTypes k = Some ext \<Longrightarrow> ext_Value ext \<noteq> []"
  by (auto simp: ExternalTypes_def split: if_splits)

lemma genValue_nonempty:
  "genValue n m t f s opts = Some v \<Longrightarrow> v \<noteq> []"
proof (induction n arbitrary: t v)
  case 0
  then show ?case by simp
next
  case (Suc n)
  note r = Suc.prems
  consider (prim) "Kind t = ''primitive''"
    | (isoneof) "Kind t = ''struct''" "length (Name t) > 2 \<and> take 2 (Name t) = ''is''"
    | (struct) "Kind t = ''struct''" "\<not> (length (Name t) > 2 \<and> take 2 (Name t) = ''is'')"
    | (oneof) "Kind t = ''oneof''"
    | (slice) "Kind t = ''slice''"
    | (pointer) "Kind t = ''pointer''"
    | (other) "Kind t \<noteq> ''primitive''" "Kind t \<noteq> ''struct''" "Kind t \<noteq> ''oneof''"
        "Kind t \<noteq> ''slice''" "Kind t \<noteq> ''pointer''"
    by blast
  then show ?case
  proof cases
    case prim
    with r show ?thesis by (auto simp: genPrimitiveValue_nonempty)
  next
    case isoneof
    with r have "oneofValue (\<lambda>t' f s. genValue n m t' f s opts) m (Name t) opts = Some v" by simp
    then show ?thesis by (rule oneofValue_nonempty)
  next
    case struct
    with r show ?thesis by (auto split: if_splits)
  next
    case oneof
    with r have "oneofValue (\<lambda>t' f s. genValue n m t' f s opts) m (Name t) opts = Some v" by simp
    then show ?thesis by (rule oneofValue_nonempty)
  next
    case slice
    with r show ?thesis by (auto split: option.splits)
  next
    case pointer
    show ?thesis
    proof (cases "Elem t")
      case None
      with r pointer show ?thesis by auto
    next
      case (Some e)
      with r pointer show ?thesis
        by (auto split: if_splits option.splits dest: Suc.IH ExternalTypes_nonempty)
    qed
  next
    case other
    with r show ?thesis by (auto split: option.splits if_splits dest: ExternalTypes_nonempty)
  qed
qed

lemma genValue_total_oneofFree:
  "oneofFree t \<Longrightarrow> \<exists>v. genValue (Suc (typeDepth t)) m t f s opts = Some v"
proof (induction t)
  case (TypeRef kind name elem)
  show ?case
  proof (cases elem)
    case None
    with TypeRef.prems show ?thesis by (auto split: option.splits)
  next
    case (Some e)
    with TypeRef.prems have "oneofFree e" by simp
    with TypeRef.IH Some obtain w where w: "genValue (Suc (typeDepth e)) m e f s opts = Some w"
      by auto
    have d: "typeDepth (TypeRef kind name elem) = Suc (typeDepth e)" using Some by simp
    from TypeRef.prems have k: "kind \<noteq> ''oneof''"
      "\<not> (kind = ''struct'' \<and> length name > 2 \<and> take 2 name = ''is'')" by simp_all
    show ?thesis
      unfolding d
      apply (subst genValue.simps)
      using k w Some
      apply (auto split: option.splits simp del: genValue.simps)
      done
  qed
qed

subsection \<open>Claims about single values\<close>

lemma genValue_nodeModel_None:
  "genValue n nodeModel (TypeRef ''struct'' ''isNode_Kind'' None) ''Next'' ''Node_Leaf'' opts = None"
proof (induction n)
  case 0
  show ?case by simp
next
  case (Suc n)
  then show ?case by (simp add: oneofValue_def nodeModel_def)
qed

text \<open>
  Claim C1 (totality of \<open>genValue\<close>). The two declarations of \<open>nodeDecls\<close> are accepted
  by the front-end, which resolves the oneof \<open>isNode_Kind\<close> to the member \<open>Node_Leaf\<close>,
  whose only field has the oneof as its type. On that model the call of \<open>genValue\<close> for
  the field makes the same call again, at every depth: it never returns a string,
  and neither does the driver.
\<close>

theorem genValue_self_referential_oneof_never_returns:
  "buildModel nodeDecls = Inr nodeModel
   \<and> (\<forall>n opts. genValue n nodeModel (TypeRef ''struct'' ''isNode_Kind'' None)
                  ''Next'' ''Node_Leaf'' opts = None)
   \<and> (\<forall>n pkgName opts. GenerateWithOptions n nodeOrder nodeModel pkgName opts = None)"
proof (intro conjI allI)
  show "buildModel nodeDecls = Inr nodeModel"
    by (simp add: buildModel_def nodeDecls_def nodeModel_def NewModel_def lowerFirst_def
        ProtoInternalFields_def primitiveTypes_def numericTypes_def ExternalTypes_def
        assignOneOfs_def fun_eq_iff eval_nat_numeral Let_def)
next
  fix n opts
  show "genValue n nodeModel (TypeRef ''struct'' ''isNode_Kind'' None) ''Next'' ''Node_Leaf'' opts = None"
    by (rule genValue_nodeModel_None)
next
  fix n pkgName opts
  have s: "rangeMap (ord_Structs nodeOrder) (Structs nodeModel)
           = [\<lparr>Struct_Name = ''Node_Leaf'',
               Struct_Fields = [\<lparr>Field_Name = ''Next'',
                                 Field_Type = TypeRef ''struct'' ''isNode_Kind'' None\<rparr>]\<rparr>]"
    by (simp add: nodeOrder_def nodeModel_def)
  show "GenerateWithOptions n nodeOrder nodeModel pkgName opts = None"
    unfolding GenerateWithOptions_def Let_def s
    by (simp add: writeStruct_def genValue_nodeModel_None)
qed

text \<open>
  Claim C2 (identifier-field convention). For a primitive string field named \<open>F\<close> on a
  record named \<open>R\<close> the literal is \<open>"RID"\<close> when \<open>F\<close> is exactly \<open>ID\<close> or \<open>Id\<close>, and
  \<open>"F"\<close> for every other name, whatever the model and the options; \<open>genValue\<close> hands
  the field to \<open>genPrimitiveValue\<close> without any recursive call, and the loop that
  writes the fields of the record \<open>R\<close> writes the line \<open>F: literal,\<close> with that literal.
\<close>

theorem genValue_string_identifier_convention:
  "genPrimitiveValue ''string'' F R
     = (if F = ''ID'' \<or> F = ''Id'' then DQ @ R @ ''ID'' @ DQ else DQ @ F @ DQ)
   \<and> genValue (Suc n) m (TypeRef ''primitive'' ''string'' e) F R opts
     = Some (if F = ''ID'' \<or> F = ''Id'' then DQ @ R @ ''ID'' @ DQ else DQ @ F @ DQ)
   \<and> writeFields (Suc n) m opts R b
        (\<lparr>Field_Name = F, Field_Type = TypeRef ''primitive'' ''string'' e\<rparr> # fs)
     = writeFields (Suc n) m opts R
        (b @ TAB @ TAB @ F @ '': ''
           @ (if F = ''ID'' \<or> F = ''Id'' then DQ @ R @ ''ID'' @ DQ else DQ @ F @ DQ) @ '','' @ NL) fs"
proof (intro conjI)
  show p: "genPrimitiveValue ''string'' F R
     = (if F = ''ID'' \<or> F = ''Id'' then DQ @ R @ ''ID'' @ DQ else DQ @ F @ DQ)"
    by (simp add: genPrimitiveValue_def)
  show g: "genValue (Suc n) m (TypeRef ''primitive'' ''string'' e) F R opts
     = Some (if F = ''ID'' \<or> F = ''Id'' then DQ @ R @ ''ID'' @ DQ else DQ @ F @ DQ)"
    unfolding p[symmetric] by simp
  show "writeFields (Suc n) m opts R b
        (\<lparr>Field_Name = F, Field_Type = TypeRef ''primitive'' ''string'' e\<rparr> # fs)
     = writeFields (Suc n) m opts R
        (b @ TAB @ TAB @ F @ '': ''
           @ (if F = ''ID'' \<or> F = ''Id'' then DQ @ R @ ''ID'' @ DQ else DQ @ F @ DQ) @ '','' @ NL) fs"
    by (simp only: writeFields.simps Field.simps g option.case)
qed

theorem genValue_string_identifier_convention_witness:
  "genValue (Suc 0) NewModel (TypeRef ''primitive'' ''string'' None) ''ID'' ''User'' modOpts
     = Some (DQ @ ''UserID'' @ DQ)
   \<and> genValue (Suc 0) NewModel (TypeRef ''primitive'' ''string'' None) ''Id'' ''Account'' modOpts
     = Some (DQ @ ''AccountID'' @ DQ)
   \<and> genValue (Suc 0) NewModel (TypeRef ''primitive'' ''string'' None) ''iD'' ''User'' classicOpts
     = Some (DQ @ ''iD'' @ DQ)
   \<and> genPrimitiveValue ''string'' ''FirstName'' ''User'' = DQ @ ''FirstName'' @ DQ
   \<and> writeFields (Suc 0) NewModel classicOpts ''User'' []
        [\<lparr>Field_Name = ''ID'', Field_Type = TypeRef ''primitive'' ''string'' None\<rparr>]
     = Some (TAB @ TAB @ ''ID: '' @ DQ @ ''UserID'' @ DQ @ '','' @ NL)"
  using genValue_string_identifier_convention [of "''ID''" "''User''" 0 NewModel None modOpts "[]" "[]"]
    genValue_string_identifier_convention [of "''Id''" "''Account''" 0 NewModel None modOpts "[]" "[]"]
    genValue_string_identifier_convention [of "''iD''" "''User''" 0 NewModel None classicOpts "[]" "[]"]
    genValue_string_identifier_convention [of "''FirstName''" "''User''" 0 NewModel None modOpts "[]" "[]"]
    genValue_string_identifier_convention [of "''ID''" "''User''" 0 NewModel None classicOpts "[]" "[]"]
  by simp

lemma join_concat:
  "es \<noteq> [] \<Longrightarrow> sep @ join es ('','' @ sep) @ '','' = concat (map (\<lambda>e. sep @ e @ '','') es)"
  by (induction es "'','' @ sep" rule: join.induct) auto

lemma fieldsLoop_fieldValues:
  "fieldsLoop (\<lambda>field. genValue n m (Field_Type field) (Field_Name field) impl opts) fs acc
     = map_option (\<lambda>vs. acc @ map (\<lambda>(f, v). f @ '': '' @ v) vs) (fieldValues n m opts impl fs)"
  by (induction fs arbitrary: acc) (auto split: option.splits)

lemma fieldValues_length: "fieldValues n m opts impl fs = Some vs \<Longrightarrow> length vs = length fs"
  by (induction fs arbitrary: vs) (auto split: option.splits)

text \<open>
  Claim C5 (oneof references). At any depth \<open>Suc n\<close> the value of a reference of kind
  \<open>oneof\<close> is: \<open>nil\<close> when the name has no entry in \<open>OneOfs\<close> or an empty one; the
  empty literal of the member when the member is not in \<open>Structs\<close> or has no field;
  and otherwise the populated literal of the member, with one entry for every field,
  each holding the value that \<open>genValue\<close> synthesizes for that field at depth \<open>n\<close>
  (and no result when one of these calls has none).
\<close>

theorem genValue_oneof:
  "genValue (Suc n) m (TypeRef ''oneof'' name e) fieldName structName opts =
     (case OneOfs m name of
        None \<Rightarrow> Some ''nil''
      | Some impl \<Rightarrow>
          if impl = [] then Some ''nil''
          else (case Structs m impl of
                  None \<Rightarrow> Some (emptyLiteral opts impl)
                | Some s \<Rightarrow>
                    if Struct_Fields s = [] then Some (emptyLiteral opts impl)
                    else map_option (populatedLiteral opts impl)
                           (fieldValues n m opts impl (Struct_Fields s))))"
proof -
  have unf: "genValue (Suc n) m (TypeRef ''oneof'' name e) fieldName structName opts
      = oneofValue (\<lambda>t' f s. genValue n m t' f s opts) m name opts"
    by simp
  show ?thesis
  proof (cases "OneOfs m name")
    case None
    then show ?thesis unfolding unf by (simp add: oneofValue_def)
  next
    case (Some impl)
    note impl = this
    show ?thesis
    proof (cases "impl = []")
      case True
      with impl show ?thesis unfolding unf by (simp add: oneofValue_def)
    next
      case False
      note ne = this
      show ?thesis
      proof (cases "Structs m impl")
        case None
        with impl ne show ?thesis unfolding unf by (simp add: oneofValue_def emptyLiteral_def)
      next
        case (Some s)
        note s = this
        show ?thesis
        proof (cases "fieldValues n m opts impl (Struct_Fields s)")
          case None
          then have "Struct_Fields s \<noteq> []" by auto
          with None impl ne s show ?thesis
            unfolding unf by (simp add: oneofValue_def fieldsLoop_fieldValues)
        next
          case (Some vs)
          note vs = this
          show ?thesis
          proof (cases "vs = []")
            case True
            with vs have "Struct_Fields s = []" by (auto dest: fieldValues_length)
            with True vs impl ne s show ?thesis
              unfolding unf by (simp add: oneofValue_def emptyLiteral_def)
          next
            case False
            with vs have fne: "Struct_Fields s \<noteq> []" by (auto dest: fieldValues_length)
            from False have mne: "map (\<lambda>(f, v). f @ '': '' @ v) vs \<noteq> []" by simp
            have "(NL @ TAB @ TAB @ TAB)
                    @ join (map (\<lambda>(f, v). f @ '': '' @ v) vs) ('','' @ (NL @ TAB @ TAB @ TAB)) @ '',''
                  = concat (map (\<lambda>e. (NL @ TAB @ TAB @ TAB) @ e @ '','') (map (\<lambda>(f, v). f @ '': '' @ v) vs))"
              by (rule join_concat[OF mne])
            with False fne vs impl ne s show ?thesis
              unfolding unf
              by (simp add: oneofValue_def fieldsLoop_fieldValues populatedLiteral_def
                  comp_def case_prod_unfold)
          qed
        qed
      qed
    qed
  qed
qed

theorem genValue_oneof_witness:
  "GenValue (Suc (Suc 0)) oneofModel (TypeRef ''oneof'' ''isUserReference_Id'' None) ''Id'' ''UserReference''
    = Some (''&UserReference_EmailId{'' @ NL @ TAB @ TAB @ TAB @ ''EmailId: '' @ DQ @ ''EmailId'' @ DQ @ '','' @ NL @ TAB @ TAB @ ''}'')"
  using genValue_oneof [of "Suc 0" oneofModel "''isUserReference_Id''" None "''Id''" "''UserReference''"
      "\<lparr>TypePrefix = [], FuncPrefix = [], ModStyle = True\<rparr>"]
  by (simp add: GenValue_def oneofModel_def NewModel_def populatedLiteral_def prefixType_def genPrimitiveValue_def)

text \<open>
  Claim C6 (pointer references). A nil element or an element of kind \<open>unknown\<close> gives
  \<open>nil\<close>; an element of kind \<open>external\<close> with a registered literal gives that literal
  unchanged; otherwise the value of the element is wrapped in \<open>ptr(...)\<close>, except in the
  mod style for an element of kind \<open>struct\<close>, \<open>enum\<close> or \<open>typedef\<close>, whose value is
  used as it is. The first part gives the value at depth \<open>Suc n\<close> from the value of the
  element at depth \<open>n\<close>; the second part says that once the element has a value at some
  depth, the pointer has the wrapped (or, in the mod style, unwrapped) value at every
  larger depth.
\<close>

theorem genValue_pointer:
  "genValue (Suc n) m (TypeRef ''pointer'' name elem) fieldName structName opts =
     (case elem of
        None \<Rightarrow> Some ''nil''
      | Some e \<Rightarrow>
          if Kind e = ''unknown'' then Some ''nil''
          else (case (if Kind e = ''external'' then ExternalTypes (Name e) else None) of
                  Some ext \<Rightarrow> Some (ext_Value ext)
                | None \<Rightarrow>
                    if ModStyle opts \<and> Kind e \<in> {''struct'', ''enum'', ''typedef''}
                    then genValue n m e fieldName structName opts
                    else map_option (\<lambda>v. ''ptr('' @ v @ '')'')
                           (genValue n m e fieldName structName opts)))
   \<and> (genValue k m e' fieldName structName opts = Some v \<and> k \<le> k' \<and> Kind e' \<noteq> ''unknown''
        \<and> (if Kind e' = ''external'' then ExternalTypes (Name e') else None) = None \<longrightarrow>
       genValue (Suc k') m (TypeRef ''pointer'' name (Some e')) fieldName structName opts =
         Some (if ModStyle opts \<and> Kind e' \<in> {''struct'', ''enum'', ''typedef''} then v
               else ''ptr('' @ v @ '')''))"
proof (intro conjI impI)
  show eq: "genValue (Suc n) m (TypeRef ''pointer'' name elem) fieldName structName opts =
     (case elem of
        None \<Rightarrow> Some ''nil''
      | Some e \<Rightarrow>
          if Kind e = ''unknown'' then Some ''nil''
          else (case (if Kind e = ''external'' then ExternalTypes (Name e) else None) of
                  Some ext \<Rightarrow> Some (ext_Value ext)
                | None \<Rightarrow>
                    if ModStyle opts \<and> Kind e \<in> {''struct'', ''enum'', ''typedef''}
                    then genValue n m e fieldName structName opts
                    else map_option (\<lambda>v. ''ptr('' @ v @ '')'')
                           (genValue n m e fieldName structName opts)))" for n elem
    by (cases elem) (auto split: option.splits)
  assume a: "genValue k m e' fieldName structName opts = Some v \<and> k \<le> k' \<and> Kind e' \<noteq> ''unknown''
        \<and> (if Kind e' = ''external'' then ExternalTypes (Name e') else None) = None"
  then have v: "genValue k' m e' fieldName structName opts = Some v"
    by (auto intro: genValue_mono)
  from a have 1: "Kind e' \<noteq> ''unknown''"
    and 2: "(if Kind e' = ''external'' then ExternalTypes (Name e') else None) = None"
    by simp_all
  show "genValue (Suc k') m (TypeRef ''pointer'' name (Some e')) fieldName structName opts =
         Some (if ModStyle opts \<and> Kind e' \<in> {''struct'', ''enum'', ''typedef''} then v
               else ''ptr('' @ v @ '')'')"
    unfolding eq by (simp only: option.case 1 2 if_False v option.map) simp
qed

theorem genValue_pointer_witness:
  "genValue (Suc (Suc 0)) NewModel (TypeRef ''pointer'' [] (Some (TypeRef ''struct'' ''Address'' None)))
      ''Address'' ''User'' modOpts = Some ''*FixtureAddress()''
   \<and> genValue (Suc (Suc 0)) NewModel (TypeRef ''pointer'' [] (Some (TypeRef ''struct'' ''Address'' None)))
      ''Address'' ''User'' classicOpts = Some ''ptr(FixtureAddress())''
   \<and> genValue (Suc (Suc 0)) NewModel (TypeRef ''pointer'' [] (Some (TypeRef ''primitive'' ''int'' None)))
      ''Age'' ''User'' modOpts = Some ''ptr(1)''
   \<and> genValue (Suc (Suc 0)) NewModel (TypeRef ''pointer'' [] (Some (TypeRef ''unknown'' [] None)))
      ''StateTimestamp'' ''User'' modOpts = Some ''nil''
   \<and> genValue (Suc (Suc 0)) NewModel (TypeRef ''pointer'' [] (Some (TypeRef ''external'' ''Timestamp'' None)))
      ''CreatedAt'' ''User'' modOpts = Some ''timestamppb.New(time.Date(2000, 1, 1, 0, 0, 0, 0, time.UTC))''
   \<and> genValue (Suc (Suc 0)) NewModel (TypeRef ''pointer'' [] None) ''X'' ''User'' classicOpts = Some ''nil''
   \<and> genValue (Suc 7) NewModel (TypeRef ''pointer'' [] (Some (TypeRef ''enum'' ''Status'' None)))
      ''Status'' ''User'' classicOpts = Some ''ptr(FixtureStatus())''"
proof -
  note p = genValue_pointer [where m = NewModel and name = "[]" and n = "Suc 0" and structName = "''User''"]
  have 1: "genValue (Suc (Suc 0)) NewModel (TypeRef ''pointer'' [] (Some (TypeRef ''struct'' ''Address'' None)))
      ''Address'' ''User'' modOpts = Some ''*FixtureAddress()''"
    using p [where elem = "Some (TypeRef ''struct'' ''Address'' None)" and fieldName = "''Address''"
        and opts = modOpts, THEN conjunct1]
    by (simp add: modOpts_def NewModel_def)
  have 2: "genValue (Suc (Suc 0)) NewModel (TypeRef ''pointer'' [] (Some (TypeRef ''struct'' ''Address'' None)))
      ''Address'' ''User'' classicOpts = Some ''ptr(FixtureAddress())''"
    using p [where elem = "Some (TypeRef ''struct'' ''Address'' None)" and fieldName = "''Address''"
        and opts = classicOpts, THEN conjunct1]
    by (simp add: classicOpts_def NewModel_def)
  have 3: "genValue (Suc (Suc 0)) NewModel (TypeRef ''pointer'' [] (Some (TypeRef ''primitive'' ''int'' None)))
      ''Age'' ''User'' modOpts = Some ''ptr(1)''"
    using p [where elem = "Some (TypeRef ''primitive'' ''int'' None)" and fieldName = "''Age''"
        and opts = modOpts, THEN conjunct1]
    by (simp add: modOpts_def genPrimitiveValue_def numericTypes_def)
  have 4: "genValue (Suc (Suc 0)) NewModel (TypeRef ''pointer'' [] (Some (TypeRef ''unknown'' [] None)))
      ''StateTimestamp'' ''User'' modOpts = Some ''nil''"
    using p [where elem = "Some (TypeRef ''unknown'' [] None)" and fieldName = "''StateTimestamp''"
        and opts = modOpts, THEN conjunct1]
    by simp
  have 5: "genValue (Suc (Suc 0)) NewModel (TypeRef ''pointer'' [] (Some (TypeRef ''external'' ''Timestamp'' None)))
      ''CreatedAt'' ''User'' modOpts = Some ''timestamppb.New(time.Date(2000, 1, 1, 0, 0, 0, 0, time.UTC))''"
    using p [where elem = "Some (TypeRef ''external'' ''Timestamp'' None)" and fieldName = "''CreatedAt''"
        and opts = modOpts, THEN conjunct1]
    by (simp add: ExternalTypes_def)
  have 6: "genValue (Suc (Suc 0)) NewModel (TypeRef ''pointer'' [] None) ''X'' ''User'' classicOpts = Some ''nil''"
    using p [where elem = None and fieldName = "''X''" and opts = classicOpts, THEN conjunct1]
    by simp
  have e: "genValue (Suc 0) NewModel (TypeRef ''enum'' ''Status'' None) ''Status'' ''User'' classicOpts
      = Some ''FixtureStatus()''"
    by (simp add: classicOpts_def)
  have 7: "genValue (Suc 7) NewModel (TypeRef ''pointer'' [] (Some (TypeRef ''enum'' ''Status'' None)))
      ''Status'' ''User'' classicOpts = Some ''ptr(FixtureStatus())''"
    using genValue_pointer [where m = NewModel and name = "[]" and structName = "''User''"
        and fieldName = "''Status''" and opts = classicOpts and k = "Suc 0" and k' = 7
        and e' = "TypeRef ''enum'' ''Status'' None" and v = "''FixtureStatus()''", THEN conjunct2] e
    by (simp add: classicOpts_def)
  from 1 2 3 4 5 6 7 show ?thesis by (simp only: simp_thms)
qed

section \<open>Properties of the emission driver\<close>

lemma firstValue_find:
  "firstValue vs = (case find (\<lambda>v. v \<notin> set reservedValues) vs of None \<Rightarrow> [] | Some v \<Rightarrow> v)"
  by (induction vs) (auto simp: reservedValues_def)

lemma appendValues_Nil: "appendValues name [] eo = eo"
  by (simp add: appendValues_def)

lemma appendValues_append:
  "appendValues name ys (appendValues name xs eo) = appendValues name (xs @ ys) eo"
  by (cases eo; cases "xs = []"; cases "ys = []") (simp_all add: appendValues_def)

lemma extractEnumsEntry_Enums:
  "Enums (extractEnumsEntry m (identName, obj)) name =
     appendValues name (constNames name [(identName, obj)]) (Enums m name)"
proof (cases obj)
  case OtherObject
  then show ?thesis by (simp add: appendValues_def)
next
  case (Const ty)
  show ?thesis
  proof (cases "identName = ''_'' \<or> identName = ''EnforceVersion''")
    case True
    with Const show ?thesis by (auto simp: appendValues_def reservedValues_def)
  next
    case False
    then have nr: "identName \<notin> set reservedValues" by (simp add: reservedValues_def)
    show ?thesis
    proof (cases ty)
      case (Named n)
      show ?thesis
      proof (cases "n = name")
        case True
        with Const Named False nr show ?thesis
          by (cases "Enums m name") (simp_all add: appendValues_def Let_def)
      next
        case False
        with Const Named \<open>\<not> (identName = ''_'' \<or> identName = ''EnforceVersion'')\<close> show ?thesis
          by (simp add: appendValues_def Let_def)
      qed
    next
      case (Basic bn)
      with Const False show ?thesis by (simp add: appendValues_def)
    next
      case OtherType
      with Const False show ?thesis by (simp add: appendValues_def)
    qed
  qed
qed

lemma constNames_Cons:
  "constNames name (entry # entries) = constNames name [entry] @ constNames name entries"
  by (cases entry) simp

lemma foldl_extractEnumsEntry_Enums:
  "Enums (foldl extractEnumsEntry m entries) name =
     appendValues name (constNames name entries) (Enums m name)"
proof (induction entries arbitrary: m)
  case Nil
  show ?case by (simp add: appendValues_Nil)
next
  case (Cons entry entries)
  obtain identName obj where entry: "entry = (identName, obj)" by (cases entry)
  have "Enums (foldl extractEnumsEntry m (entry # entries)) name
        = Enums (foldl extractEnumsEntry (extractEnumsEntry m entry) entries) name"
    by simp
  also have "\<dots> = appendValues name (constNames name entries) (Enums (extractEnumsEntry m entry) name)"
    by (rule Cons.IH)
  also have "\<dots> = appendValues name (constNames name entries)
                      (appendValues name (constNames name [entry]) (Enums m name))"
    unfolding entry by (simp only: extractEnumsEntry_Enums)
  also have "\<dots> = appendValues name (constNames name [entry] @ constNames name entries) (Enums m name)"
    by (rule appendValues_append)
  also have "\<dots> = appendValues name (constNames name (entry # entries)) (Enums m name)"
    by (simp only: constNames_Cons[symmetric])
  finally show ?case .
qed

lemma extractEnums_NewModel:
  "Enums (extractEnums ord defs NewModel) name =
     (if constNames name (rangeMap ord defs) = [] then None
      else Some \<lparr>Enum_Name = name, Enum_Values = constNames name (rangeMap ord defs)\<rparr>)"
  by (simp add: extractEnums_def foldl_extractEnumsEntry_Enums appendValues_def NewModel_def)


lemma writeEnum_find:
  "writeEnum opts b e =
     (case find (\<lambda>v. v \<notin> set reservedValues) (Enum_Values e) of
        None \<Rightarrow> b
      | Some v \<Rightarrow>
          if v = [] then b
          else if ModStyle opts then
            b @ ''func Fixture'' @ FuncPrefix opts @ Enum_Name e @ ''(mods ...func(*''
              @ prefixType opts (Enum_Name e) @ '')) *'' @ prefixType opts (Enum_Name e) @ '' {'' @ NL
              @ TAB @ ''value := '' @ prefixType opts v @ NL
              @ TAB @ ''for _, mod := range mods {'' @ NL
              @ TAB @ TAB @ ''mod(&value)'' @ NL
              @ TAB @ ''}'' @ NL
              @ TAB @ ''return &value'' @ NL
              @ ''}'' @ NL @ NL
          else
            b @ ''func Fixture'' @ FuncPrefix opts @ Enum_Name e @ ''() ''
              @ prefixType opts (Enum_Name e) @ '' {'' @ NL
              @ TAB @ ''return '' @ prefixType opts v @ NL
              @ ''}'' @ NL @ NL)"
proof (cases "find (\<lambda>v. v \<notin> set reservedValues) (Enum_Values e)")
  case None
  then have "firstValue (Enum_Values e) = []" by (simp add: firstValue_find)
  with None show ?thesis by (simp add: writeEnum_def)
next
  case (Some v)
  then have fv: "firstValue (Enum_Values e) = v" by (simp add: firstValue_find)
  show ?thesis
    unfolding writeEnum_def Let_def fv Some by simp
qed

lemma extractEnums_statusVisited: "extractEnums statusVisited statusDefs NewModel = statusModel"
  by (simp add: extractEnums_def statusVisited_def statusDefs_def NewModel_def statusModel_def
      Let_def fun_eq_iff)

text \<open>
  Claim C7 (enum default). The constructor written for an enumeration returns the
  first of \<open>Enum_Values\<close>, in their order, that is not reserved (and nothing is written
  when there is none, or when it is the empty string). The values themselves are
  appended by \<open>extractEnums\<close> in the order in which the \<open>range\<close> over \<open>Defs\<close> visits
  the constants, whatever the order of their declaration. For the enumeration \<open>Status\<close>,
  declared as \<open>STATUS_UNSPECIFIED, STATUS_ACTIVE\<close>, a run that visits \<open>STATUS_ACTIVE\<close>
  first builds the values \<open>STATUS_ACTIVE, STATUS_UNSPECIFIED\<close>, and the constructor
  written by \<open>Generate\<close> returns \<open>STATUS_ACTIVE\<close>, which is not the first declared value.
\<close>

theorem enum_fixture_follows_visiting_order:
  "writeEnum opts b e =
     (case find (\<lambda>v. v \<notin> set reservedValues) (Enum_Values e) of
        None \<Rightarrow> b
      | Some v \<Rightarrow>
          if v = [] then b
          else if ModStyle opts then
            b @ ''func Fixture'' @ FuncPrefix opts @ Enum_Name e @ ''(mods ...func(*''
              @ prefixType opts (Enum_Name e) @ '')) *'' @ prefixType opts (Enum_Name e) @ '' {'' @ NL
              @ TAB @ ''value := '' @ prefixType opts v @ NL
              @ TAB @ ''for _, mod := range mods {'' @ NL
              @ TAB @ TAB @ ''mod(&value)'' @ NL
              @ TAB @ ''}'' @ NL
              @ TAB @ ''return &value'' @ NL
              @ ''}'' @ NL @ NL
          else
            b @ ''func Fixture'' @ FuncPrefix opts @ Enum_Name e @ ''() ''
              @ prefixType opts (Enum_Name e) @ '' {'' @ NL
              @ TAB @ ''return '' @ prefixType opts v @ NL
              @ ''}'' @ NL @ NL)
   \<and> Enums (extractEnums ord defs NewModel) name =
       (if constNames name (rangeMap ord defs) = [] then None
        else Some \<lparr>Enum_Name = name, Enum_Values = constNames name (rangeMap ord defs)\<rparr>)
   \<and> distinct statusDeclared \<and> dom statusDefs \<subseteq> set statusDeclared
   \<and> distinct statusVisited \<and> dom statusDefs \<subseteq> set statusVisited
   \<and> Enums (extractEnums statusDeclared statusDefs NewModel) ''Status'' =
       Some \<lparr>Enum_Name = ''Status'', Enum_Values = [''STATUS_UNSPECIFIED'', ''STATUS_ACTIVE'']\<rparr>
   \<and> Enums (extractEnums statusVisited statusDefs NewModel) ''Status'' =
       Some \<lparr>Enum_Name = ''Status'', Enum_Values = [''STATUS_ACTIVE'', ''STATUS_UNSPECIFIED'']\<rparr>
   \<and> validOrder statusOrder (extractEnums statusVisited statusDefs NewModel)
   \<and> Generate 0 statusOrder (extractEnums statusVisited statusDefs NewModel) ''fixtures'' =
       Some (''package fixtures'' @ NL @ NL
             @ ''func ptr[T any](v T) *T { return &v }'' @ NL @ NL
             @ ''func FixtureStatus(mods ...func(*Status)) *Status {'' @ NL
             @ TAB @ ''value := STATUS_ACTIVE'' @ NL
             @ TAB @ ''for _, mod := range mods {'' @ NL
             @ TAB @ TAB @ ''mod(&value)'' @ NL
             @ TAB @ ''}'' @ NL
             @ TAB @ ''return &value'' @ NL
             @ ''}'' @ NL @ NL)"
proof (intro conjI)
  show "writeEnum opts b e =
     (case find (\<lambda>v. v \<notin> set reservedValues) (Enum_Values e) of
        None \<Rightarrow> b
      | Some v \<Rightarrow>
          if v = [] then b
          else if ModStyle opts then
            b @ ''func Fixture'' @ FuncPrefix opts @ Enum_Name e @ ''(mods ...func(*''
              @ prefixType opts (Enum_Name e) @ '')) *'' @ prefixType opts (Enum_Name e) @ '' {'' @ NL
              @ TAB @ ''value := '' @ prefixType opts v @ NL
              @ TAB @ ''for _, mod := range mods {'' @ NL
              @ TAB @ TAB @ ''mod(&value)'' @ NL
              @ TAB @ ''}'' @ NL
              @ TAB @ ''return &value'' @ NL
              @ ''}'' @ NL @ NL
          else
            b @ ''func Fixture'' @ FuncPrefix opts @ Enum_Name e @ ''() ''
              @ prefixType opts (Enum_Name e) @ '' {'' @ NL
              @ TAB @ ''return '' @ prefixType opts v @ NL
              @ ''}'' @ NL @ NL)"
    by (rule writeEnum_find)
  show "Enums (extractEnums ord defs NewModel) name =
       (if constNames name (rangeMap ord defs) = [] then None
        else Some \<lparr>Enum_Name = name, Enum_Values = constNames name (rangeMap ord defs)\<rparr>)"
    by (rule extractEnums_NewModel)
  have d: "dom statusDefs = {0, 1, 2}" by (auto simp: statusDefs_def)
  show "distinct statusDeclared" by (simp add: statusDeclared_def)
  show "dom statusDefs \<subseteq> set statusDeclared" by (simp add: d statusDeclared_def)
  show "distinct statusVisited" by (simp add: statusVisited_def)
  show "dom statusDefs \<subseteq> set statusVisited" by (simp add: d statusVisited_def)
  show "Enums (extractEnums statusDeclared statusDefs NewModel) ''Status'' =
       Some \<lparr>Enum_Name = ''Status'', Enum_Values = [''STATUS_UNSPECIFIED'', ''STATUS_ACTIVE'']\<rparr>"
    by (simp add: extractEnums_NewModel statusDeclared_def statusDefs_def reservedValues_def)
  show "Enums (extractEnums statusVisited statusDefs NewModel) ''Status'' =
       Some \<lparr>Enum_Name = ''Status'', Enum_Values = [''STATUS_ACTIVE'', ''STATUS_UNSPECIFIED'']\<rparr>"
    by (simp add: extractEnums_NewModel statusVisited_def statusDefs_def reservedValues_def)
  have u: "usedExternals statusOrder statusModel = []"
    by (simp add: usedExternals_def statusOrder_def statusModel_def)
  show "validOrder statusOrder (extractEnums statusVisited statusDefs NewModel)"
    unfolding extractEnums_statusVisited
    by (simp add: validOrder_def u importSet_def) (simp add: statusOrder_def statusModel_def)
  have c: "collectImports statusOrder statusModel [] = []"
    by (simp add: collectImports_def u)
  show "Generate 0 statusOrder (extractEnums statusVisited statusDefs NewModel) ''fixtures'' =
       Some (''package fixtures'' @ NL @ NL
             @ ''func ptr[T any](v T) *T { return &v }'' @ NL @ NL
             @ ''func FixtureStatus(mods ...func(*Status)) *Status {'' @ NL
             @ TAB @ ''value := STATUS_ACTIVE'' @ NL
             @ TAB @ ''for _, mod := range mods {'' @ NL
             @ TAB @ TAB @ ''mod(&value)'' @ NL
             @ TAB @ ''}'' @ NL
             @ TAB @ ''return &value'' @ NL
             @ ''}'' @ NL @ NL)"
    unfolding extractEnums_statusVisited
    by (simp add: Generate_def GenerateWithOptions_def c writeImports_def)
       (simp add: statusModel_def statusOrder_def writeEnum_def prefixType_def)
qed

subsection \<open>The output as a sequence of blocks\<close>

lemma writeTypeDef_append: "writeTypeDef opts b td = b @ writeTypeDef opts [] td"
  by (simp add: writeTypeDef_def)

lemma writeEnum_append: "writeEnum opts b e = b @ writeEnum opts [] e"
  by (simp add: writeEnum_def Let_def)

lemma foldl_append_blocks:
  assumes "\<And>b x. w b x = b @ w [] x"
  shows "foldl w b xs = b @ concat (map (w []) xs)"
proof (induction xs arbitrary: b)
  case Nil show ?case by simp
next
  case (Cons x xs)
  have "foldl w b (x # xs) = foldl w (w b x) xs" by simp
  also have "\<dots> = w b x @ concat (map (w []) xs)" by (rule Cons.IH)
  also have "\<dots> = b @ concat (map (w []) (x # xs))" by (subst assms) simp
  finally show ?case .
qed

lemma writeFields_append:
  "writeFields n m opts sname b fs = map_option (\<lambda>t. b @ t) (writeFields n m opts sname [] fs)"
proof (induction fs arbitrary: b)
  case Nil show ?case by simp
next
  case (Cons f fs)
  show ?case
  proof (cases "genValue n m (Field_Type f) (Field_Name f) sname opts")
    case None then show ?thesis by simp
  next
    case (Some v)
    define x where "x = TAB @ TAB @ Field_Name f @ '': '' @ v @ '','' @ NL"
    have 1: "writeFields n m opts sname (b @ x) fs
             = map_option (\<lambda>t. (b @ x) @ t) (writeFields n m opts sname [] fs)"
      by (rule Cons.IH)
    have 2: "writeFields n m opts sname ([] @ x) fs
             = map_option (\<lambda>t. ([] @ x) @ t) (writeFields n m opts sname [] fs)"
      by (rule Cons.IH)
    have "writeFields n m opts sname b (f # fs) = writeFields n m opts sname (b @ x) fs"
      by (simp add: Some x_def)
    moreover have "writeFields n m opts sname [] (f # fs) = writeFields n m opts sname ([] @ x) fs"
      by (simp add: Some x_def)
    ultimately show ?thesis
      unfolding 1 2 by (cases "writeFields n m opts sname [] fs") simp_all
  qed
qed

lemma writeStruct_append:
  "writeStruct n m opts b s = map_option (\<lambda>t. b @ t) (writeStruct n m opts [] s)"
  unfolding writeStruct_def
  apply (subst writeFields_append)
  apply (subst (2) writeFields_append)
  apply (subst (3) writeFields_append)
  apply (subst (4) writeFields_append)
  apply (cases "writeFields n m opts (Struct_Name s) [] (Struct_Fields s)")
   apply simp_all
  done

lemma writeStructs_blocks:
  "writeStructs n m opts b ss = map_option (\<lambda>blocks. b @ concat blocks) (structBlocks n m opts ss)"
proof (induction ss arbitrary: b)
  case Nil show ?case by simp
next
  case (Cons s ss)
  show ?case
  proof (cases "writeStruct n m opts [] s")
    case None
    then show ?thesis by (simp add: writeStruct_append[of n m opts b s])
  next
    case (Some t)
    then show ?thesis
      by (simp add: writeStruct_append[of n m opts b s] Cons.IH option.map_comp comp_def split: option.splits)
  qed
qed

lemma foldl_import_lines:
  "foldl (\<lambda>b' imp. b' @ TAB @ imp @ NL) c imps = c @ concat (map (\<lambda>imp. TAB @ imp @ NL) imps)"
  by (induction imps arbitrary: c) simp_all

lemma writeImports_append: "writeImports b imps = b @ writeImports [] imps"
  unfolding writeImports_def foldl_import_lines by simp

text \<open>
  Claim C8 (order of the constructors). The output is the preamble (package clause,
  imports, the \<open>ptr\<close> helper), then the constructors of all aliases, then those of all
  enumerations, then those of all structs, for every model, every option and every
  order in which the maps are visited.
\<close>

theorem GenerateWithOptions_order_of_blocks:
  "GenerateWithOptions n ord m pkgName opts =
     map_option
       (\<lambda>blocks.
          (''package '' @ pkgName @ NL @ NL
             @ writeImports [] (collectImports ord m (TypePrefix opts))
             @ ''func ptr[T any](v T) *T { return &v }'' @ NL @ NL)
          @ concat (map (writeTypeDef opts []) (rangeMap (ord_TypeDefs ord) (TypeDefs m)))
          @ concat (map (writeEnum opts []) (rangeMap (ord_Enums ord) (Enums m)))
          @ concat blocks)
       (structBlocks n m opts (rangeMap (ord_Structs ord) (Structs m)))"
proof -
  have td: "foldl (writeTypeDef opts) b xs = b @ concat (map (writeTypeDef opts []) xs)" for b xs
    by (rule foldl_append_blocks) (rule writeTypeDef_append)
  have en: "foldl (writeEnum opts) b xs = b @ concat (map (writeEnum opts []) xs)" for b xs
    by (rule foldl_append_blocks) (rule writeEnum_append)
  show ?thesis
    unfolding GenerateWithOptions_def Let_def td en writeStructs_blocks
    by (subst writeImports_append) (simp add: option.map_comp comp_def)
qed

lemma dom_userModel: "dom (Structs userModel) = {''User''}" "dom (Enums userModel) = {}" "dom (TypeDefs userModel) = {}"
  by (simp_all add: userModel_def)

lemma used_userModel: "usedExternals userOrder userModel = []" "usedExternals userOrder2 userModel = []"
  by (simp_all add: usedExternals_def userModel_def userOrder_def userOrder2_def)

lemma rangeMap_userModel:
  "rangeMap (ord_Structs userOrder) (Structs userModel) =
     [\<lparr>Struct_Name = ''User'',
       Struct_Fields = [\<lparr>Field_Name = ''FirstName'', Field_Type = TypeRef ''primitive'' ''string'' None\<rparr>,
                        \<lparr>Field_Name = ''Age'', Field_Type = TypeRef ''primitive'' ''int'' None\<rparr>]\<rparr>]"
  "rangeMap (ord_TypeDefs userOrder) (TypeDefs userModel) = []"
  "rangeMap (ord_Enums userOrder) (Enums userModel) = []"
  by (simp_all add: userOrder_def userModel_def)

lemma collectImports_userModel: "collectImports userOrder userModel [] = []"
  by (simp add: collectImports_def used_userModel)

theorem GenerateWithOptions_order_of_blocks_witness:
  "GenerateWithOptions (Suc 0) userOrder userModel ''fixtures'' classicOpts = Some userText"
  using GenerateWithOptions_order_of_blocks [of "Suc 0" userOrder userModel "''fixtures''" classicOpts]
  unfolding rangeMap_userModel
  by (simp add: classicOpts_def collectImports_userModel writeImports_def writeStruct_def
      prefixType_def genPrimitiveValue_def numericTypes_def userText_def)

subsection \<open>Visiting orders and the output\<close>

lemma rangeMap_filter:
  "rangeMap ks mp = map (\<lambda>k. the (mp k)) (filter (\<lambda>k. k \<in> dom mp) ks)"
  by (induction ks) (auto split: option.splits)

lemma filter_single:
  "distinct xs \<Longrightarrow> x \<in> set xs \<Longrightarrow> filter (\<lambda>k. k = x) xs = [x]"
  by (induction xs) (auto simp: filter_empty_conv)

lemma filter_atMostOne:
  assumes "distinct ks" "distinct ks'" "S \<subseteq> set ks" "S \<subseteq> set ks'" "atMostOne S"
  shows "filter (\<lambda>k. k \<in> S) ks = filter (\<lambda>k. k \<in> S) ks'"
proof (cases "S = {}")
  case True
  then show ?thesis by simp
next
  case False
  then obtain x where x: "x \<in> S" by blast
  with assms(5) have S: "S = {x}" by (auto simp: atMostOne_def)
  have "filter (\<lambda>k. k = x) ks = [x]" using assms(1,3) S by (intro filter_single) auto
  moreover have "filter (\<lambda>k. k = x) ks' = [x]" using assms(2,4) S by (intro filter_single) auto
  ultimately show ?thesis by (simp add: S)
qed

lemma rangeMap_atMostOne:
  assumes "distinct ks" "distinct ks'" "dom mp \<subseteq> set ks" "dom mp \<subseteq> set ks'"
    and "atMostOne (dom mp) \<or> ks = ks'"
  shows "rangeMap ks mp = rangeMap ks' mp"
  using assms(5)
proof
  assume "atMostOne (dom mp)"
  from filter_atMostOne[OF assms(1-4) this] show ?thesis by (simp add: rangeMap_filter)
next
  assume "ks = ks'" then show ?thesis by simp
qed

text \<open>
  The claim C3 as stated: two runs on the same model and options give the same text.
  On the model with the two aliases \<open>A\<close> and \<open>B\<close> the two orders in which the runtime
  can visit \<open>TypeDefs\<close> give two different texts.
\<close>

theorem GenerateWithOptions_order_counterexample:
  "buildModel aliasDecls = Inr aliasModel
   \<and> validOrder orderAB aliasModel \<and> validOrder orderBA aliasModel
   \<and> GenerateWithOptions (Suc 0) orderAB aliasModel ''fixtures'' classicOpts
       = Some (''package fixtures'' @ NL @ NL @ ''func ptr[T any](v T) *T { return &v }'' @ NL @ NL
              @ ''func FixtureA() A {'' @ NL @ TAB @ ''return A('' @ DQ @ ''A'' @ DQ @ '')'' @ NL @ ''}'' @ NL @ NL
              @ ''func FixtureB() B {'' @ NL @ TAB @ ''return B('' @ DQ @ ''B'' @ DQ @ '')'' @ NL @ ''}'' @ NL @ NL)
   \<and> GenerateWithOptions (Suc 0) orderBA aliasModel ''fixtures'' classicOpts
       = Some (''package fixtures'' @ NL @ NL @ ''func ptr[T any](v T) *T { return &v }'' @ NL @ NL
              @ ''func FixtureB() B {'' @ NL @ TAB @ ''return B('' @ DQ @ ''B'' @ DQ @ '')'' @ NL @ ''}'' @ NL @ NL
              @ ''func FixtureA() A {'' @ NL @ TAB @ ''return A('' @ DQ @ ''A'' @ DQ @ '')'' @ NL @ ''}'' @ NL @ NL)
   \<and> GenerateWithOptions (Suc 0) orderAB aliasModel ''fixtures'' classicOpts
       \<noteq> GenerateWithOptions (Suc 0) orderBA aliasModel ''fixtures'' classicOpts"
proof -
  have d: "dom (TypeDefs aliasModel) = {''A'', ''B''}" "dom (Enums aliasModel) = {}" "dom (Structs aliasModel) = {}"
    by (auto simp: aliasModel_def)
  have u: "usedExternals orderAB aliasModel = []" "usedExternals orderBA aliasModel = []"
    by (simp_all add: usedExternals_def aliasModel_def orderAB_def orderBA_def)
  have v1: "validOrder orderAB aliasModel"
    by (simp add: validOrder_def d u importSet_def) (simp add: orderAB_def)
  have v2: "validOrder orderBA aliasModel"
    by (simp add: validOrder_def d u importSet_def) (simp add: orderBA_def)
  have c: "collectImports orderAB aliasModel [] = []" "collectImports orderBA aliasModel [] = []"
    by (simp_all add: collectImports_def u)
  have g1: "GenerateWithOptions (Suc 0) orderAB aliasModel ''fixtures'' classicOpts
       = Some (''package fixtures'' @ NL @ NL @ ''func ptr[T any](v T) *T { return &v }'' @ NL @ NL
              @ ''func FixtureA() A {'' @ NL @ TAB @ ''return A('' @ DQ @ ''A'' @ DQ @ '')'' @ NL @ ''}'' @ NL @ NL
              @ ''func FixtureB() B {'' @ NL @ TAB @ ''return B('' @ DQ @ ''B'' @ DQ @ '')'' @ NL @ ''}'' @ NL @ NL)"
    by (simp add: GenerateWithOptions_def classicOpts_def c writeImports_def)
       (simp add: aliasModel_def orderAB_def writeTypeDef_def prefixType_def genPrimitiveValue_def)
  have g2: "GenerateWithOptions (Suc 0) orderBA aliasModel ''fixtures'' classicOpts
       = Some (''package fixtures'' @ NL @ NL @ ''func ptr[T any](v T) *T { return &v }'' @ NL @ NL
              @ ''func FixtureB() B {'' @ NL @ TAB @ ''return B('' @ DQ @ ''B'' @ DQ @ '')'' @ NL @ ''}'' @ NL @ NL
              @ ''func FixtureA() A {'' @ NL @ TAB @ ''return A('' @ DQ @ ''A'' @ DQ @ '')'' @ NL @ ''}'' @ NL @ NL)"
    by (simp add: GenerateWithOptions_def classicOpts_def c writeImports_def)
       (simp add: aliasModel_def orderBA_def writeTypeDef_def prefixType_def genPrimitiveValue_def)
  have b: "buildModel aliasDecls = Inr aliasModel"
    by (simp add: buildModel_def aliasDecls_def aliasModel_def NewModel_def lowerFirst_def
        primitiveTypes_def numericTypes_def Let_def)
  show ?thesis
    unfolding g1 g2 using b v1 v2 by simp
qed

text \<open>
  Claim C3, amended (stability of the output). Two runs on the same model and the same
  options give the same text whenever each of \<open>TypeDefs\<close>, \<open>Enums\<close>, \<open>Structs\<close> and the
  import set either has at most one element or is visited in the same order in both
  runs.
\<close>

theorem GenerateWithOptions_same_visits:
  assumes v1: "validOrder ord1 m" and v2: "validOrder ord2 m"
    and td: "atMostOne (dom (TypeDefs m)) \<or> ord_TypeDefs ord1 = ord_TypeDefs ord2"
    and en: "atMostOne (dom (Enums m)) \<or> ord_Enums ord1 = ord_Enums ord2"
    and st: "atMostOne (dom (Structs m)) \<or> ord_Structs ord1 = ord_Structs ord2"
    and im: "atMostOne (set (importSet (usedExternals ord1 m))) \<or> ord_imports ord1 = ord_imports ord2"
  shows "GenerateWithOptions n ord1 m pkgName opts = GenerateWithOptions n ord2 m pkgName opts"
proof -
  have T: "rangeMap (ord_TypeDefs ord1) (TypeDefs m) = rangeMap (ord_TypeDefs ord2) (TypeDefs m)"
    using v1 v2 td by (intro rangeMap_atMostOne) (simp_all add: validOrder_def)
  have E: "rangeMap (ord_Enums ord1) (Enums m) = rangeMap (ord_Enums ord2) (Enums m)"
    using v1 v2 en by (intro rangeMap_atMostOne) (simp_all add: validOrder_def)
  have S: "rangeMap (ord_Structs ord1) (Structs m) = rangeMap (ord_Structs ord2) (Structs m)"
    using v1 v2 st by (intro rangeMap_atMostOne) (simp_all add: validOrder_def)
  have U: "usedExternals ord1 m = usedExternals ord2 m"
    by (simp add: usedExternals_def S)
  have F: "filter (\<lambda>imp. imp \<in> set (importSet (usedExternals ord1 m))) (ord_imports ord1)
         = filter (\<lambda>imp. imp \<in> set (importSet (usedExternals ord1 m))) (ord_imports ord2)"
    using im
  proof
    assume "atMostOne (set (importSet (usedExternals ord1 m)))"
    then show ?thesis
      using v1 v2 U by (intro filter_atMostOne) (simp_all add: validOrder_def)
  next
    assume "ord_imports ord1 = ord_imports ord2" then show ?thesis by simp
  qed
  have I: "collectImports ord1 m (TypePrefix opts) = collectImports ord2 m (TypePrefix opts)"
    using F by (simp add: collectImports_def U Let_def)
  show ?thesis
    by (simp add: GenerateWithOptions_def T E S I)
qed

theorem GenerateWithOptions_same_visits_witness:
  "validOrder userOrder userModel \<and> validOrder userOrder2 userModel
   \<and> ord_Structs userOrder \<noteq> ord_Structs userOrder2
   \<and> GenerateWithOptions (Suc 0) userOrder userModel ''fixtures'' classicOpts
      = GenerateWithOptions (Suc 0) userOrder2 userModel ''fixtures'' classicOpts"
proof -
  have v1: "validOrder userOrder userModel"
    by (simp add: validOrder_def dom_userModel used_userModel importSet_def) (simp add: userOrder_def)
  have v2: "validOrder userOrder2 userModel"
    by (simp add: validOrder_def dom_userModel used_userModel importSet_def) (simp add: userOrder2_def)
  have a: "atMostOne (dom (TypeDefs userModel))" "atMostOne (dom (Enums userModel))"
    "atMostOne (dom (Structs userModel))" "atMostOne (set (importSet (usedExternals userOrder userModel)))"
    by (simp_all add: atMostOne_def dom_userModel used_userModel importSet_def)
  have "ord_Structs userOrder \<noteq> ord_Structs userOrder2"
    by (simp add: userOrder_def userOrder2_def)
  with v1 v2 GenerateWithOptions_same_visits [OF v1 v2 disjI1 disjI1 disjI1 disjI1, OF a, of "Suc 0" "''fixtures''" classicOpts]
  show ?thesis by simp
qed

subsection \<open>Formatting\<close>

lemma GenerateWithOptions_userModel:
  "GenerateWithOptions (Suc 0) userOrder userModel ''fixtures'' classicOpts = Some userText"
  unfolding GenerateWithOptions_def Let_def rangeMap_userModel
  by (simp add: classicOpts_def collectImports_userModel writeImports_def writeStruct_def
      prefixType_def genPrimitiveValue_def numericTypes_def userText_def)

text \<open>
  Claim C9 (formatter failure). When \<open>format.Source\<close> fails on the generated text, the
  formatted entry points return that text unchanged together with a nil error; when it
  succeeds they return the formatted text, again with a nil error.
\<close>

theorem GenerateFormattedWithOptions_formatter:
  "(GenerateWithOptions n ord m pkgName opts = Some out \<and> format_Source out = Inl err \<longrightarrow>
      GenerateFormattedWithOptions format_Source n ord m pkgName opts = Some (out, None))
   \<and> (GenerateWithOptions n ord m pkgName opts = Some out \<and> format_Source out = Inr formatted \<longrightarrow>
      GenerateFormattedWithOptions format_Source n ord m pkgName opts = Some (formatted, None))
   \<and> (Generate n ord m pkgName = Some out \<and> format_Source out = Inl err \<longrightarrow>
      GenerateFormatted format_Source n ord m pkgName = Some (out, None))
   \<and> (Generate n ord m pkgName = Some out \<and> format_Source out = Inr formatted \<longrightarrow>
      GenerateFormatted format_Source n ord m pkgName = Some (formatted, None))"
  by (simp add: GenerateFormattedWithOptions_def GenerateFormatted_def Generate_def)

theorem GenerateFormattedWithOptions_formatter_witness:
  "GenerateFormattedWithOptions (\<lambda>src. Inl ''expected declaration'') (Suc 0) userOrder userModel
      ''fixtures'' classicOpts = Some (userText, None)
   \<and> GenerateFormattedWithOptions (\<lambda>src. Inr (''// formatted'' @ NL @ src)) (Suc 0) userOrder userModel
      ''fixtures'' classicOpts = Some (''// formatted'' @ NL @ userText, None)"
  using GenerateFormattedWithOptions_formatter
      [of "Suc 0" userOrder userModel "''fixtures''" classicOpts userText
          "\<lambda>src. Inl ''expected declaration''" "''expected declaration''" "[]"]
    GenerateFormattedWithOptions_formatter
      [of "Suc 0" userOrder userModel "''fixtures''" classicOpts userText
          "\<lambda>src. Inr (''// formatted'' @ NL @ src)" "[]" "''// formatted'' @ NL @ userText"]
    GenerateWithOptions_userModel
  by simp

section \<open>Properties of the front-end\<close>

subsection \<open>Grouping of oneof members\<close>

lemma prefix_snoc_iff:
  "prefix (xs @ [c]) ys \<longleftrightarrow> length ys > length xs \<and> take (length xs) ys = xs \<and> ys ! length xs = c"
proof
  assume "prefix (xs @ [c]) ys"
  then obtain zs where "ys = (xs @ [c]) @ zs" by (auto simp: prefix_def)
  then show "length ys > length xs \<and> take (length xs) ys = xs \<and> ys ! length xs = c"
    by (simp add: nth_append)
next
  assume a: "length ys > length xs \<and> take (length xs) ys = xs \<and> ys ! length xs = c"
  then have 1: "length xs < length ys" and 2: "take (length xs) ys = xs" and 3: "ys ! length xs = c"
    by auto
  have "ys = take (length xs) ys @ ys ! length xs # drop (Suc (length xs)) ys"
    by (rule id_take_nth_drop[OF 1])
  then have "ys = (xs @ [c]) @ drop (Suc (length xs)) ys"
    by (simp only: 2 3 append_assoc append_Cons append_Nil)
  then show "prefix (xs @ [c]) ys" by (rule prefixI)
qed

lemma scan_step:
  assumes "i < length parentName"
  shows "scanSeparators parentName name (Suc i) =
           (if matchesAt parentName name i then Some i else scanSeparators parentName name i)"
proof -
  from assms have l: "length (take i parentName) = i" by simp
  have "prefix (take i parentName @ ''_'') name \<longleftrightarrow>
          length name > i \<and> take i name = take i parentName \<and> name ! i = CHR ''_''"
    using prefix_snoc_iff[of "take i parentName" "CHR ''_''" name] l by simp
  with assms l show ?thesis by (simp add: matchesAt_def Let_def)
qed

lemma scan_Some_iff:
  "k \<le> length parentName \<Longrightarrow>
     scanSeparators parentName name k = Some i \<longleftrightarrow>
       i < k \<and> matchesAt parentName name i \<and> (\<forall>j. i < j \<and> j < k \<longrightarrow> \<not> matchesAt parentName name j)"
proof (induction k)
  case 0
  show ?case by simp
next
  case (Suc k)
  then have k: "k < length parentName" and ih: "scanSeparators parentName name k = Some i \<longleftrightarrow>
       i < k \<and> matchesAt parentName name i \<and> (\<forall>j. i < j \<and> j < k \<longrightarrow> \<not> matchesAt parentName name j)"
    by simp_all
  show ?case
  proof (cases "matchesAt parentName name k")
    case True
    then have s: "scanSeparators parentName name (Suc k) = Some k"
      by (simp only: scan_step[OF k] if_True)
    show ?thesis
    proof
      assume "scanSeparators parentName name (Suc k) = Some i"
      with s have "i = k" by simp
      with True show "i < Suc k \<and> matchesAt parentName name i
            \<and> (\<forall>j. i < j \<and> j < Suc k \<longrightarrow> \<not> matchesAt parentName name j)"
        by auto
    next
      assume a: "i < Suc k \<and> matchesAt parentName name i
            \<and> (\<forall>j. i < j \<and> j < Suc k \<longrightarrow> \<not> matchesAt parentName name j)"
      have "i = k"
      proof (rule ccontr)
        assume "i \<noteq> k"
        with a have "i < k" by simp
        with a have "\<not> matchesAt parentName name k" by simp
        with True show False by simp
      qed
      with s show "scanSeparators parentName name (Suc k) = Some i" by simp
    qed
  next
    case False
    then have s: "scanSeparators parentName name (Suc k) = scanSeparators parentName name k"
      by (simp only: scan_step[OF k] if_False)
    have "(i < Suc k \<and> matchesAt parentName name i
            \<and> (\<forall>j. i < j \<and> j < Suc k \<longrightarrow> \<not> matchesAt parentName name j))
          \<longleftrightarrow> (i < k \<and> matchesAt parentName name i
            \<and> (\<forall>j. i < j \<and> j < k \<longrightarrow> \<not> matchesAt parentName name j))"
      using False by (auto simp: less_Suc_eq)
    with s ih show ?thesis by (simp only:)
  qed
qed

lemma scan_None_iff:
  "k \<le> length parentName \<Longrightarrow>
     scanSeparators parentName name k = None \<longleftrightarrow> (\<forall>j<k. \<not> matchesAt parentName name j)"
proof (induction k)
  case 0
  show ?case by simp
next
  case (Suc k)
  then have k: "k < length parentName"
    and ih: "scanSeparators parentName name k = None \<longleftrightarrow> (\<forall>j<k. \<not> matchesAt parentName name j)"
    by simp_all
  show ?case
  proof (cases "matchesAt parentName name k")
    case True
    then have "scanSeparators parentName name (Suc k) = Some k"
      by (simp only: scan_step[OF k] if_True)
    with True show ?thesis by auto
  next
    case False
    then have s: "scanSeparators parentName name (Suc k) = scanSeparators parentName name k"
      by (simp only: scan_step[OF k] if_False)
    have "(\<forall>j<Suc k. \<not> matchesAt parentName name j) \<longleftrightarrow> (\<forall>j<k. \<not> matchesAt parentName name j)"
      using False by (auto simp: less_Suc_eq)
    with s ih show ?thesis by (simp only:)
  qed
qed

lemma matchesAt_bound: "matchesAt parentName name j \<Longrightarrow> j < length parentName"
  by (simp add: matchesAt_def)

lemma matchesAt_nonempty: "matchesAt parentName name j \<Longrightarrow> name \<noteq> []"
  by (auto simp: matchesAt_def)

lemma scan_full_Some:
  "scanSeparators parentName name (length parentName) = Some i \<longleftrightarrow>
     matchesAt parentName name i \<and> (\<forall>j. i < j \<longrightarrow> \<not> matchesAt parentName name j)"
proof -
  have "scanSeparators parentName name (length parentName) = Some i \<longleftrightarrow>
       i < length parentName \<and> matchesAt parentName name i
       \<and> (\<forall>j. i < j \<and> j < length parentName \<longrightarrow> \<not> matchesAt parentName name j)"
    by (rule scan_Some_iff) simp
  also have "\<dots> \<longleftrightarrow> matchesAt parentName name i \<and> (\<forall>j. i < j \<longrightarrow> \<not> matchesAt parentName name j)"
    by (auto dest: matchesAt_bound)
  finally show ?thesis .
qed

lemma scan_full_None:
  "scanSeparators parentName name (length parentName) = None \<longleftrightarrow>
     (\<forall>j. \<not> matchesAt parentName name j)"
proof -
  have "scanSeparators parentName name (length parentName) = None \<longleftrightarrow>
       (\<forall>j<length parentName. \<not> matchesAt parentName name j)"
    by (rule scan_None_iff) simp
  also have "\<dots> \<longleftrightarrow> (\<forall>j. \<not> matchesAt parentName name j)"
    by (auto dest: matchesAt_bound)
  finally show ?thesis .
qed

lemma assignOneOfs_eq:
  "assignOneOfs name oneofs ifaceName =
     (case oneofs ifaceName of
        None \<Rightarrow> None
      | Some cur \<Rightarrow>
          if cur = [] \<and> (\<exists>i. matchesAt (drop 2 ifaceName) name i) then Some name else Some cur)"
proof -
  define p where "p = drop 2 ifaceName"
  have unf: "assignOneOfs name oneofs ifaceName =
     (case oneofs ifaceName of
        None \<Rightarrow> None
      | Some cur \<Rightarrow>
          if cur = [] then
            (case scanSeparators p name (length p) of Some i \<Rightarrow> Some name | None \<Rightarrow> Some cur)
          else Some cur)"
    unfolding assignOneOfs_def Let_def p_def ..
  show ?thesis
  proof (cases "scanSeparators p name (length p)")
    case None
    then have "\<not> (\<exists>i. matchesAt p name i)" by (simp add: scan_full_None)
    with None show ?thesis unfolding unf p_def[symmetric] by (simp split: option.splits)
  next
    case (Some i)
    then have "matchesAt p name i" by (simp add: scan_full_Some)
    then have "\<exists>i. matchesAt p name i" ..
    with Some show ?thesis unfolding unf p_def[symmetric] by (simp split: option.splits)
  qed
qed

lemma assignOneOfs_keeps:
  "oneofs ifaceName = Some cur \<Longrightarrow> cur \<noteq> [] \<Longrightarrow>
     foldl (\<lambda>os nm. assignOneOfs nm os) oneofs names ifaceName = Some cur"
proof (induction names arbitrary: oneofs)
  case Nil
  then show ?case by simp
next
  case (Cons nm names)
  from Cons.prems have "assignOneOfs nm oneofs ifaceName = Some cur"
    by (simp add: assignOneOfs_eq)
  from Cons.IH[of "assignOneOfs nm oneofs", OF this Cons.prems(2)] show ?case by simp
qed

lemma secondPassSpec_OneOfs_keeps:
  assumes "secondPassSpec sp m = Inr m'" "OneOfs m k = Some cur" "cur \<noteq> []"
  shows "OneOfs m' k = Some cur"
proof (cases sp)
  case (TypeSpec name t)
  show ?thesis
  proof (cases "lowerFirst name")
    case (Inl e)
    with assms TypeSpec show ?thesis by simp
  next
    case (Inr lower)
    show ?thesis
    proof (cases lower)
      case True
      with assms TypeSpec Inr show ?thesis by simp
    next
      case False
      with assms TypeSpec Inr show ?thesis
        by (cases t) (auto simp: Let_def assignOneOfs_eq split: sum.splits if_splits)
    qed
  qed
next
  case ImportSpec
  with assms show ?thesis by simp
next
  case ValueSpec
  with assms show ?thesis by simp
qed

lemma forSpecs_OneOfs_keeps:
  "forSpecs secondPassSpec specs m = Inr m' \<Longrightarrow> OneOfs m k = Some cur \<Longrightarrow> cur \<noteq> []
     \<Longrightarrow> OneOfs m' k = Some cur"
proof (induction specs arbitrary: m)
  case Nil
  then show ?case by simp
next
  case (Cons sp specs)
  from Cons.prems(1) obtain m1 where 1: "secondPassSpec sp m = Inr m1"
    and 2: "forSpecs secondPassSpec specs m1 = Inr m'"
    by (auto split: sum.splits)
  from secondPassSpec_OneOfs_keeps[OF 1 Cons.prems(2,3)] have "OneOfs m1 k = Some cur" .
  from Cons.IH[OF 2 this Cons.prems(3)] show ?case .
qed

lemma forDecls_OneOfs_keeps:
  "forDecls secondPassSpec decls m = Inr m' \<Longrightarrow> OneOfs m k = Some cur \<Longrightarrow> cur \<noteq> []
     \<Longrightarrow> OneOfs m' k = Some cur"
proof (induction decls arbitrary: m)
  case Nil
  then show ?case by simp
next
  case (Cons d decls)
  show ?case
  proof (cases d)
    case (GenDecl tok specs)
    show ?thesis
    proof (cases "tok = token_TYPE")
      case False
      with Cons GenDecl show ?thesis by simp
    next
      case True
      with Cons.prems(1) GenDecl obtain m1 where 1: "forSpecs secondPassSpec specs m = Inr m1"
        and 2: "forDecls secondPassSpec decls m1 = Inr m'"
        by (auto split: sum.splits)
      from forSpecs_OneOfs_keeps[OF 1 Cons.prems(2,3)] have "OneOfs m1 k = Some cur" .
      from Cons.IH[OF 2 this Cons.prems(3)] show ?thesis .
    qed
  next
    case FuncDecl
    with Cons show ?thesis by simp
  next
    case BadDecl
    with Cons show ?thesis by simp
  qed
qed

lemma secondPassSpec_struct_OneOfs:
  assumes "secondPassSpec (TypeSpec name (StructType flds)) m = Inr m'" "lowerFirst name = Inr False"
  shows "OneOfs m' = assignOneOfs name (OneOfs m)"
  using assms by (auto simp: Let_def split: sum.splits if_splits)

text \<open>
  Claim C4 (sum-type grouping). For a struct declaration named \<open>name\<close> and an entry
  \<open>ifaceName\<close> of \<open>OneOfs\<close>, the parent name is \<open>ifaceName\<close> without its first two
  characters. The scan from the right stops at position \<open>i\<close> exactly when \<open>i\<close> is the
  rightmost position at which the record matches, and ends without a result exactly when
  no position matches. The loop over the entries leaves an entry that has a member as
  it is, and gives an entry without member the record as its member exactly when some
  position matches. So the first matching record stays the member, whatever records
  follow, through the loop and through the whole second pass of \<open>ParseSource\<close>. In
  \<open>ParseSource\<close> the loop runs for the struct declarations with an exported name; in
  \<open>extractOneOfs\<close> for every struct declaration.
\<close>

theorem oneof_grouping:
  "(scanSeparators parentName name (length parentName) = Some i \<longleftrightarrow>
      matchesAt parentName name i \<and> (\<forall>j. i < j \<longrightarrow> \<not> matchesAt parentName name j))
   \<and> (scanSeparators parentName name (length parentName) = None \<longleftrightarrow>
      (\<forall>j. \<not> matchesAt parentName name j))
   \<and> assignOneOfs name oneofs ifaceName =
       (case oneofs ifaceName of
          None \<Rightarrow> None
        | Some cur \<Rightarrow>
            if cur = [] \<and> (\<exists>i. matchesAt (drop 2 ifaceName) name i) then Some name else Some cur)
   \<and> (oneofs ifaceName = Some [] \<and> (\<exists>i. matchesAt (drop 2 ifaceName) name i) \<longrightarrow>
        foldl (\<lambda>os nm. assignOneOfs nm os) oneofs (name # names) ifaceName = Some name)
   \<and> (oneofs ifaceName = Some member \<and> member \<noteq> [] \<longrightarrow>
        foldl (\<lambda>os nm. assignOneOfs nm os) oneofs names ifaceName = Some member)
   \<and> (forDecls secondPassSpec decls m = Inr m' \<and> OneOfs m ifaceName = Some member \<and> member \<noteq> [] \<longrightarrow>
        OneOfs m' ifaceName = Some member)
   \<and> (lowerFirst name = Inr False \<and> secondPassSpec (TypeSpec name (StructType flds)) m1 = Inr m1' \<longrightarrow>
        OneOfs m1' = assignOneOfs name (OneOfs m1))
   \<and> extractOneOfsSpec (TypeSpec name (StructType flds)) oneofs = assignOneOfs name oneofs"
proof (intro conjI impI)
  show "scanSeparators parentName name (length parentName) = Some i \<longleftrightarrow>
      matchesAt parentName name i \<and> (\<forall>j. i < j \<longrightarrow> \<not> matchesAt parentName name j)"
    by (rule scan_full_Some)
  show "scanSeparators parentName name (length parentName) = None \<longleftrightarrow>
      (\<forall>j. \<not> matchesAt parentName name j)"
    by (rule scan_full_None)
  show "assignOneOfs name oneofs ifaceName =
       (case oneofs ifaceName of
          None \<Rightarrow> None
        | Some cur \<Rightarrow>
            if cur = [] \<and> (\<exists>i. matchesAt (drop 2 ifaceName) name i) then Some name else Some cur)"
    by (rule assignOneOfs_eq)
  show "foldl (\<lambda>os nm. assignOneOfs nm os) oneofs (name # names) ifaceName = Some name"
    if a: "oneofs ifaceName = Some [] \<and> (\<exists>i. matchesAt (drop 2 ifaceName) name i)"
  proof -
    from a have 1: "assignOneOfs name oneofs ifaceName = Some name"
      by (simp add: assignOneOfs_eq)
    from a have 2: "name \<noteq> []" by (auto dest: matchesAt_nonempty)
    from assignOneOfs_keeps[of "assignOneOfs name oneofs", OF 1 2] show ?thesis by simp
  qed
  show "foldl (\<lambda>os nm. assignOneOfs nm os) oneofs names ifaceName = Some member"
    if "oneofs ifaceName = Some member \<and> member \<noteq> []"
    using that by (simp add: assignOneOfs_keeps)
  show "OneOfs m' ifaceName = Some member"
    if "forDecls secondPassSpec decls m = Inr m' \<and> OneOfs m ifaceName = Some member \<and> member \<noteq> []"
    using that forDecls_OneOfs_keeps by blast
  show "OneOfs m1' = assignOneOfs name (OneOfs m1)"
    if "lowerFirst name = Inr False \<and> secondPassSpec (TypeSpec name (StructType flds)) m1 = Inr m1'"
    using that secondPassSpec_struct_OneOfs by blast
  show "extractOneOfsSpec (TypeSpec name (StructType flds)) oneofs = assignOneOfs name oneofs"
    by simp
qed

theorem oneof_grouping_witness:
  "scanSeparators ''A_B_C'' ''A_B_Y'' (length ''A_B_C'') = Some 3
   \<and> matchesAt ''A_B_C'' ''A_B_Y'' 1
   \<and> scanSeparators ''A_B_C'' ''A_X'' (length ''A_B_C'') = Some 1
   \<and> scanSeparators ''UserReference_Id'' ''User'' (length ''UserReference_Id'') = None
   \<and> foldl (\<lambda>os nm. assignOneOfs nm os) [''isUserReference_Id'' \<mapsto> []]
        [''UserReference_EmailId'', ''UserReference_UserId''] ''isUserReference_Id''
      = Some ''UserReference_EmailId''"
proof -
  have m13: "matchesAt (drop 2 ''isUserReference_Id'') ''UserReference_EmailId'' 13"
    by (simp add: matchesAt_def)
  have 1: "scanSeparators ''A_B_C'' ''A_B_Y'' (length ''A_B_C'') = Some 3"
    using oneof_grouping [where parentName = "''A_B_C''" and name = "''A_B_Y''" and i = 3]
    by (simp add: matchesAt_def nth_Cons' less_Suc_eq_0_disj)
  have 2: "matchesAt ''A_B_C'' ''A_B_Y'' 1" by (simp add: matchesAt_def)
  have 3: "scanSeparators ''A_B_C'' ''A_X'' (length ''A_B_C'') = Some 1"
    by (simp add: eval_nat_numeral)
  have 4: "scanSeparators ''UserReference_Id'' ''User'' (length ''UserReference_Id'') = None"
    by (simp add: eval_nat_numeral)
  have 5: "foldl (\<lambda>os nm. assignOneOfs nm os) [''isUserReference_Id'' \<mapsto> []]
        [''UserReference_EmailId'', ''UserReference_UserId''] ''isUserReference_Id''
      = Some ''UserReference_EmailId''"
    using oneof_grouping [where oneofs = "[''isUserReference_Id'' \<mapsto> []]"
        and ifaceName = "''isUserReference_Id''" and name = "''UserReference_EmailId''"
        and names = "[''UserReference_UserId'']"] m13
    by (simp only: fun_upd_same simp_thms) blast
  from 1 2 3 4 5 show ?thesis by (simp only: simp_thms)
qed

subsection \<open>Structs without fields\<close>

lemma structFields_eligible:
  "structFields flds acc = Inr r \<Longrightarrow> r = acc @ map toField (filter eligible flds)"
proof (induction flds arbitrary: acc)
  case Nil
  then show ?case by simp
next
  case (Cons fld flds)
  obtain names ty where fld: "fld = (names, ty)" by (cases fld)
  show ?case
  proof (cases names)
    case Nil
    with Cons fld show ?thesis by (simp add: eligible_def)
  next
    case (Cons fieldName rest)
    note names = this
    show ?thesis
    proof (cases "ProtoInternalFields fieldName")
      case True
      with Cons.prems Cons.IH fld names show ?thesis by (simp add: eligible_def)
    next
      case False
      note npi = this
      show ?thesis
      proof (cases "lowerFirst fieldName")
        case (Inl e)
        with Cons.prems fld names npi show ?thesis by simp
      next
        case (Inr lower)
        show ?thesis
        proof (cases lower)
          case True
          with Cons.prems Cons.IH fld names npi Inr show ?thesis by (simp add: eligible_def)
        next
          case False
          with Cons.prems fld names npi Inr
          have "structFields flds (acc @ [\<lparr>Field_Name = fieldName, Field_Type = exprToTypeRef ty\<rparr>]) = Inr r"
            by simp
          from Cons.IH[OF this] False fld names npi Inr show ?thesis
            by (simp add: eligible_def toField_def)
        qed
      qed
    qed
  qed
qed

lemma secondPassSpec_Structs:
  assumes "secondPassSpec sp m = Inr m'" "Structs m' k = Some s"
  shows "Structs m k = Some s
         \<or> (\<exists>flds. sp = TypeSpec k (StructType flds) \<and> filter eligible flds \<noteq> []
               \<and> s = \<lparr>Struct_Name = k, Struct_Fields = map toField (filter eligible flds)\<rparr>)"
proof (cases sp)
  case (TypeSpec name t)
  show ?thesis
  proof (cases "lowerFirst name")
    case (Inl e)
    with assms TypeSpec show ?thesis by simp
  next
    case (Inr lower)
    show ?thesis
    proof (cases lower)
      case True
      with assms TypeSpec Inr show ?thesis by simp
    next
      case False
      note nl = this
      show ?thesis
      proof (cases t)
        case (StructType flds)
        show ?thesis
        proof (cases "structFields flds []")
          case (Inl e)
          with assms TypeSpec Inr nl StructType show ?thesis by simp
        next
          case (Inr fs)
          from structFields_eligible[OF this] have fs: "fs = map toField (filter eligible flds)" by simp
          show ?thesis
          proof (cases "fs = []")
            case True
            with assms TypeSpec \<open>lowerFirst name = Inr lower\<close> nl StructType Inr show ?thesis
              by (auto simp: Let_def)
          next
            case False
            with assms TypeSpec \<open>lowerFirst name = Inr lower\<close> nl StructType Inr fs show ?thesis
              by (auto simp: Let_def split: if_splits)
          qed
        qed
      qed (use assms TypeSpec Inr nl in \<open>auto simp: Let_def split: if_splits\<close>)
    qed
  qed
next
  case ImportSpec
  with assms show ?thesis by simp
next
  case ValueSpec
  with assms show ?thesis by simp
qed

lemma forSpecs_second_Structs:
  "forSpecs secondPassSpec specs m = Inr m' \<Longrightarrow> Structs m' k = Some s \<Longrightarrow>
     Structs m k = Some s
     \<or> (\<exists>flds. TypeSpec k (StructType flds) \<in> set specs \<and> filter eligible flds \<noteq> []
           \<and> s = \<lparr>Struct_Name = k, Struct_Fields = map toField (filter eligible flds)\<rparr>)"
proof (induction specs arbitrary: m)
  case Nil
  then show ?case by simp
next
  case (Cons sp specs)
  from Cons.prems(1) obtain m1 where 1: "secondPassSpec sp m = Inr m1"
    and 2: "forSpecs secondPassSpec specs m1 = Inr m'"
    by (auto split: sum.splits)
  from Cons.IH[OF 2 Cons.prems(2)] show ?case
  proof
    assume "Structs m1 k = Some s"
    from secondPassSpec_Structs[OF 1 this] show ?thesis by auto
  next
    assume "\<exists>flds. TypeSpec k (StructType flds) \<in> set specs \<and> filter eligible flds \<noteq> []
           \<and> s = \<lparr>Struct_Name = k, Struct_Fields = map toField (filter eligible flds)\<rparr>"
    then show ?thesis by auto
  qed
qed

lemma forSpecs_append:
  "forSpecs body (xs @ ys) m =
     (case forSpecs body xs m of Inl err \<Rightarrow> Inl err | Inr m' \<Rightarrow> forSpecs body ys m')"
  by (induction xs arbitrary: m) (auto split: sum.splits)

lemma forDecls_typeSpecs: "forDecls body decls m = forSpecs body (typeSpecs decls) m"
proof (induction decls arbitrary: m)
  case Nil
  show ?case by simp
next
  case (Cons d decls)
  show ?case
    by (cases d) (auto simp: forSpecs_append Cons.IH split: sum.splits)
qed

lemma firstPassSpec_Structs: "firstPassSpec sp m = Inr m' \<Longrightarrow> Structs m' = Structs m"
  by (cases sp) (auto split: if_splits sum.splits)

lemma forSpecs_first_Structs:
  "forSpecs firstPassSpec specs m = Inr m' \<Longrightarrow> Structs m' = Structs m"
proof (induction specs arbitrary: m)
  case Nil
  then show ?case by simp
next
  case (Cons sp specs)
  from Cons.prems obtain m1 where 1: "firstPassSpec sp m = Inr m1"
    and 2: "forSpecs firstPassSpec specs m1 = Inr m'"
    by (auto split: sum.splits)
  from Cons.IH[OF 2] firstPassSpec_Structs[OF 1] show ?case by simp
qed

lemma rangeMap_set: "s \<in> set (rangeMap ks mp) \<Longrightarrow> \<exists>k. mp k = Some s"
  by (induction ks) (auto split: option.splits)

lemma buildModel_Structs:
  assumes "buildModel decls = Inr m" "Structs m k = Some s"
  shows "\<exists>flds. TypeSpec k (StructType flds) \<in> set (typeSpecs decls) \<and> filter eligible flds \<noteq> []
           \<and> s = \<lparr>Struct_Name = k, Struct_Fields = map toField (filter eligible flds)\<rparr>"
proof -
  from assms(1) obtain m0 where 1: "forSpecs firstPassSpec (typeSpecs decls) NewModel = Inr m0"
    and 2: "forSpecs secondPassSpec (typeSpecs decls) m0 = Inr m"
    by (auto simp: buildModel_def forDecls_typeSpecs split: sum.splits)
  from forSpecs_first_Structs[OF 1] have "Structs m0 k = None" by (simp add: NewModel_def)
  with forSpecs_second_Structs[OF 2 assms(2)] show ?thesis by simp
qed

text \<open>
  Claim C10 (structs without eligible fields). Every struct of the model that
  \<open>ParseSource\<close> builds comes from a struct declaration of that name with at least one
  eligible field, and holds exactly its eligible fields. Hence a name all of whose struct
  declarations have no eligible field is not a key of \<open>Structs\<close>, and no struct of
  that name is visited by the loop that writes the struct constructors; the second pass
  leaves \<open>Structs\<close> unchanged at such a declaration.
\<close>

theorem buildModel_omits_structs_without_fields:
  assumes "buildModel decls = Inr m"
  shows "(\<forall>k s. Structs m k = Some s \<longrightarrow>
            (\<exists>flds. TypeSpec k (StructType flds) \<in> set (typeSpecs decls) \<and> filter eligible flds \<noteq> []
               \<and> s = \<lparr>Struct_Name = k, Struct_Fields = map toField (filter eligible flds)\<rparr>))
         \<and> ((\<forall>flds. TypeSpec N (StructType flds) \<in> set (typeSpecs decls) \<longrightarrow> filter eligible flds = [])
              \<longrightarrow> Structs m N = None
                  \<and> (\<forall>ord :: IterOrder. \<forall>s \<in> set (rangeMap (ord_Structs ord) (Structs m)). Struct_Name s \<noteq> N))
         \<and> (filter eligible flds0 = [] \<and> secondPassSpec (TypeSpec N (StructType flds0)) m0 = Inr m1
              \<longrightarrow> Structs m1 = Structs m0)"
proof (intro conjI allI impI)
  fix k s
  assume "Structs m k = Some s"
  from buildModel_Structs[OF assms this]
  show "\<exists>flds. TypeSpec k (StructType flds) \<in> set (typeSpecs decls) \<and> filter eligible flds \<noteq> []
           \<and> s = \<lparr>Struct_Name = k, Struct_Fields = map toField (filter eligible flds)\<rparr>" .
next
  assume a: "\<forall>flds. TypeSpec N (StructType flds) \<in> set (typeSpecs decls) \<longrightarrow> filter eligible flds = []"
  show none: "Structs m N = None"
  proof (cases "Structs m N")
    case None
    then show ?thesis .
  next
    case (Some s)
    from buildModel_Structs[OF assms this] a show ?thesis by blast
  qed
  fix ord :: IterOrder
  show "\<forall>s \<in> set (rangeMap (ord_Structs ord) (Structs m)). Struct_Name s \<noteq> N"
  proof
    fix s
    assume "s \<in> set (rangeMap (ord_Structs ord) (Structs m))"
    then obtain k where k: "Structs m k = Some s" by (auto dest: rangeMap_set)
    from buildModel_Structs[OF assms this] have "Struct_Name s = k" by auto
    with k none show "Struct_Name s \<noteq> N" by auto
  qed
next
  assume a: "filter eligible flds0 = [] \<and> secondPassSpec (TypeSpec N (StructType flds0)) m0 = Inr m1"
  show "Structs m1 = Structs m0"
  proof (cases "structFields flds0 []")
    case (Inl e)
    with a show ?thesis by (auto split: sum.splits if_splits)
  next
    case (Inr fs)
    from structFields_eligible[OF this] a have "fs = []" by simp
    with a Inr show ?thesis by (auto simp: Let_def split: sum.splits if_splits)
  qed
qed

lemma buildModel_emptyStructDecls: "buildModel emptyStructDecls = Inr emptyStructModel"
  by (simp add: buildModel_def emptyStructDecls_def emptyStructModel_def NewModel_def lowerFirst_def
      ProtoInternalFields_def primitiveTypes_def numericTypes_def ExternalTypes_def
      assignOneOfs_def fun_eq_iff Let_def)

theorem buildModel_omits_structs_without_fields_witness:
  "buildModel emptyStructDecls = Inr emptyStructModel
   \<and> Structs emptyStructModel ''Empty'' = None
   \<and> Structs emptyStructModel ''User'' \<noteq> None"
proof -
  have e: "\<forall>flds. TypeSpec ''Empty'' (StructType flds) \<in> set (typeSpecs emptyStructDecls)
             \<longrightarrow> filter eligible flds = []"
    by (auto simp: emptyStructDecls_def eligible_def ProtoInternalFields_def lowerFirst_def)
  from buildModel_omits_structs_without_fields [OF buildModel_emptyStructDecls, of "''Empty''"] e
  have "Structs emptyStructModel ''Empty'' = None" by blast
  moreover have "Structs emptyStructModel ''User'' \<noteq> None" by (simp add: emptyStructModel_def)
  ultimately show ?thesis using buildModel_emptyStructDecls by simp
qed

subsection \<open>The keys of OneOfs\<close>

text \<open>
  Every key of \<open>OneOfs\<close> in a model built by \<open>ParseSource\<close> has more than two
  characters and starts with \<open>is\<close>, so the slice \<open>ifaceName[2:]\<close> of the assignment
  loop is always in range.
\<close>

lemma firstPassSpec_keys:
  "firstPassSpec sp m = Inr m' \<Longrightarrow> OneOfs m' k \<noteq> None \<Longrightarrow>
     OneOfs m k \<noteq> None \<or> (2 < length k \<and> take 2 k = ''is'')"
  by (cases sp) (auto split: if_splits sum.splits)

lemma assignOneOfs_None: "assignOneOfs name os k = None \<longleftrightarrow> os k = None"
  by (simp add: assignOneOfs_eq split: option.splits)

lemma assignOneOfs_SomeD: "assignOneOfs name os k = Some y \<Longrightarrow> \<exists>y'. os k = Some y'"
  using assignOneOfs_None[of name os k] by (cases "os k") auto

lemma secondPassSpec_keys:
  assumes "secondPassSpec sp m = Inr m'" "OneOfs m' k \<noteq> None"
  shows "OneOfs m k \<noteq> None"
proof (cases sp)
  case (TypeSpec name t)
  show ?thesis
  proof (cases "lowerFirst name")
    case (Inl e)
    with assms TypeSpec show ?thesis by simp
  next
    case (Inr lower)
    show ?thesis
    proof (cases lower)
      case True
      with assms TypeSpec Inr show ?thesis by auto
    next
      case False
      with assms TypeSpec Inr show ?thesis
        by (cases t) (auto simp: Let_def split: sum.splits if_splits dest: assignOneOfs_SomeD)
    qed
  qed
next
  case ImportSpec
  with assms show ?thesis by auto
next
  case ValueSpec
  with assms show ?thesis by auto
qed

lemma forSpecs_first_keys:
  "forSpecs firstPassSpec specs m = Inr m' \<Longrightarrow> OneOfs m' k \<noteq> None \<Longrightarrow>
     OneOfs m k \<noteq> None \<or> (2 < length k \<and> take 2 k = ''is'')"
proof (induction specs arbitrary: m)
  case Nil
  then show ?case by simp
next
  case (Cons sp specs)
  from Cons.prems(1) obtain m1 where 1: "firstPassSpec sp m = Inr m1"
    and 2: "forSpecs firstPassSpec specs m1 = Inr m'"
    by (auto split: sum.splits)
  from Cons.IH[OF 2 Cons.prems(2)] firstPassSpec_keys[OF 1] show ?case by blast
qed

lemma forSpecs_second_keys:
  "forSpecs secondPassSpec specs m = Inr m' \<Longrightarrow> OneOfs m' k \<noteq> None \<Longrightarrow> OneOfs m k \<noteq> None"
proof (induction specs arbitrary: m)
  case Nil
  then show ?case by simp
next
  case (Cons sp specs)
  from Cons.prems(1) obtain m1 where 1: "secondPassSpec sp m = Inr m1"
    and 2: "forSpecs secondPassSpec specs m1 = Inr m'"
    by (auto split: sum.splits)
  from Cons.IH[OF 2 Cons.prems(2)] secondPassSpec_keys[OF 1] show ?case by blast
qed

lemma buildModel_OneOfs_keys:
  assumes "buildModel decls = Inr m" "OneOfs m k \<noteq> None"
  shows "2 < length k \<and> take 2 k = ''is''"
proof -
  from assms(1) obtain m0 where 1: "forSpecs firstPassSpec (typeSpecs decls) NewModel = Inr m0"
    and 2: "forSpecs secondPassSpec (typeSpecs decls) m0 = Inr m"
    by (auto simp: buildModel_def forDecls_typeSpecs split: sum.splits)
  from forSpecs_second_keys[OF 2 assms(2)] have "OneOfs m0 k \<noteq> None" .
  from forSpecs_first_keys[OF 1 this] show ?thesis by (simp add: NewModel_def)
qed

end
